theory Spec2Isabelle
  imports Main
begin

section \<open>Values and heap objects\<close>

text \<open>
  The listener registry of \<^verbatim>\<open>packages/ember-metal/lib/events.js\<close> stores, per owner and
  event name, two parallel JavaScript arrays: \<^verbatim>\<open>targets\<close> and \<^verbatim>\<open>methods\<close> (one array of
  methods per target). The objects are mutated in place and shared through prototype
  chains, so the model is an explicit store.

  JavaScript values that can stand as a target or a method. Objects and functions are
  compared by identity (their number), strings by content, as \<^verbatim>\<open>===\<close> does.
\<close>

datatype val = Undefined | Null | Obj nat | Fun nat | Str string

definition truthy :: "val \<Rightarrow> bool" where
  "truthy v = (case v of Undefined \<Rightarrow> False | Null \<Rightarrow> False | Str s \<Rightarrow> s \<noteq> []
                | Obj n \<Rightarrow> True | Fun n \<Rightarrow> True)"

definition is_function :: "val \<Rightarrow> bool" where
  "is_function v = (case v of Fun n \<Rightarrow> True | _ \<Rightarrow> False)"

text \<open>
  What a call can throw: a \<^verbatim>\<open>TypeError\<close> of the engine (a property read on
  \<^verbatim>\<open>undefined\<close>, a call of a non-function), a failed \<^verbatim>\<open>Ember.assert\<close>, or an exception
  raised by user code (a callback).
\<close>

datatype error = TypeError | AssertionFailed | Thrown nat

text \<open>
  The per-event object \<^verbatim>\<open>{__ember_source__, targets, methods}\<close>. A missing
  \<^verbatim>\<open>targets\<close> or \<^verbatim>\<open>methods\<close> array is kept as the empty list: the source replaces a
  missing array by \<^verbatim>\<open>[]\<close> before every use (\<^verbatim>\<open>actions.targets || []\<close>) and
  \<^verbatim>\<open>iterateSet\<close> returns \<^verbatim>\<open>false\<close> on it as it does on an empty one. An entry of
  \<^verbatim>\<open>methods\<close> is \<open>None\<close> where the JavaScript array has a hole (reads as
  \<^verbatim>\<open>undefined\<close>).
\<close>

record actions =
  source :: "nat option"
  targets :: "val list"
  methods :: "val list option list"

text \<open>
  What a property of a listener directory can hold: \<^verbatim>\<open>null\<close> (written by
  \<^verbatim>\<open>hasListeners\<close>), a reference to an \<open>actions\<close> object, or one of the functions
  every object inherits from \<^verbatim>\<open>Object.prototype\<close>. Such a function is truthy and has no
  property \<^verbatim>\<open>__ember_source__\<close>, \<^verbatim>\<open>targets\<close> or \<^verbatim>\<open>methods\<close>.
\<close>

datatype slot = NoListeners | Ref nat | Builtin

text \<open>
  A listener directory (\<^verbatim>\<open>meta.listeners\<close>): its prototype (the directory it was made
  from by \<^verbatim>\<open>o_create\<close>), its own \<^verbatim>\<open>__ember_source__\<close> property and its own properties
  by event name, in insertion order. The marker and the prototype link are fields of
  their own: an event named \<^verbatim>\<open>__ember_source__\<close> or \<^verbatim>\<open>__proto__\<close> is outside the model.
\<close>

record directory =
  proto :: "nat option"
  dsource :: "nat option"
  events :: "(string \<times> slot) list"

text \<open>
  The store: directories and \<open>actions\<close> objects by address (their index; a new object
  takes the next index, so a prototype has a smaller address than the object made from
  it), and, per owner, the directory its meta object refers to.

  Modelled from the spec: \<^verbatim>\<open>Ember.meta\<close> (ember-metal/utils, not in this file) is the
  per-object, lazily created storage slot of the spec's section 1; \<open>listeners s obj\<close> is
  what \<^verbatim>\<open>meta(obj).listeners\<close> reads, and two owners share a directory when their slots
  hold the same address.
\<close>

record store =
  dirs :: "directory list"
  acts :: "actions list"
  listeners :: "nat \<Rightarrow> nat option"

definition empty_store :: store where
  "empty_store = \<lparr>dirs = [], acts = [], listeners = (\<lambda>obj. None)\<rparr>"

section \<open>Arrays\<close>

text \<open>\<^verbatim>\<open>xs.indexOf(v)\<close>: the first index holding \<open>v\<close>, \<open>None\<close> for \<^verbatim>\<open>-1\<close>.\<close>

fun indexOf :: "'a list \<Rightarrow> 'a \<Rightarrow> nat option" where
  "indexOf [] v = None"
| "indexOf (x # xs) v = (if x = v then Some 0 else map_option Suc (indexOf xs v))"

text \<open>
  \<^verbatim>\<open>xs.splice(i, 1)\<close> for an index \<open>Some i\<close>, and for \<^verbatim>\<open>-1\<close> (\<open>None\<close>), where
  JavaScript counts from the end and removes the last element.
\<close>

definition splice1 :: "nat option \<Rightarrow> 'a list \<Rightarrow> 'a list" where
  "splice1 i xs = (case i of None \<Rightarrow> butlast xs | Some k \<Rightarrow> take k xs @ drop (Suc k) xs)"

text \<open>\<^verbatim>\<open>xs[i]\<close> on an array of values: \<^verbatim>\<open>undefined\<close> out of range.\<close>

definition nth_val :: "val list \<Rightarrow> nat \<Rightarrow> val" where
  "nth_val xs i = (if i < length xs then xs ! i else Undefined)"

text \<open>
  \<^verbatim>\<open>actions.methods[i]\<close>: \<open>None\<close> (\<^verbatim>\<open>undefined\<close>) out of range, at a hole, and at the
  index \<^verbatim>\<open>-1\<close> that \<^verbatim>\<open>indexOf\<close> returns for a missing target.
\<close>

definition row_at :: "val list option list \<Rightarrow> nat option \<Rightarrow> val list option" where
  "row_at ms i = (case i of None \<Rightarrow> None | Some k \<Rightarrow> if k < length ms then ms ! k else None)"

text \<open>\<^verbatim>\<open>ms[i] = r\<close>: JavaScript extends the array, leaving holes.\<close>

definition set_row :: "val list option list \<Rightarrow> nat \<Rightarrow> val list \<Rightarrow> val list option list" where
  "set_row ms i r = (if i < length ms then ms[i := Some r]
                     else ms @ replicate (i - length ms) None @ [Some r])"

text \<open>Assignment of an own property: in place when present, appended otherwise.\<close>

fun set_prop :: "string \<Rightarrow> 'v \<Rightarrow> (string \<times> 'v) list \<Rightarrow> (string \<times> 'v) list" where
  "set_prop k v [] = [(k, v)]"
| "set_prop k v (p # ps) = (if fst p = k then (k, v) # ps else p # set_prop k v ps)"

section \<open>Listener directories and their prototype chain\<close>

text \<open>
  A directory that was not made by \<^verbatim>\<open>o_create\<close> is an object literal \<^verbatim>\<open>{}\<close>, so every
  prototype chain ends in \<^verbatim>\<open>Object.prototype\<close>. Its properties that hold a function
  (ECMAScript 5.1, section 15.2.4, and the four accessor helpers of the engines) are
  found by a read under their name and are not enumerable.
\<close>

definition object_prototype :: "string list" where
  "object_prototype =
     [''constructor'', ''toString'', ''toLocaleString'', ''valueOf'', ''hasOwnProperty'',
      ''isPrototypeOf'', ''propertyIsEnumerable'', ''__defineGetter__'', ''__defineSetter__'',
      ''__lookupGetter__'', ''__lookupSetter__'']"

definition proto_get :: "string \<Rightarrow> slot option" where
  "proto_get k = (if k \<in> set object_prototype then Some Builtin else None)"

text \<open>
  \<^verbatim>\<open>listeners[eventName]\<close>: the own property, else the prototype's, at the end of the
  chain the one of \<^verbatim>\<open>Object.prototype\<close>. The recursion follows the chain while the
  address decreases, which it does in every store built by allocation.
\<close>

function dir_get :: "directory list \<Rightarrow> nat \<Rightarrow> string \<Rightarrow> slot option" where
  "dir_get ds d k =
     (if d < length ds then
        (case map_of (events (ds ! d)) k of
           Some v \<Rightarrow> Some v
         | None \<Rightarrow> (case proto (ds ! d) of
                      None \<Rightarrow> proto_get k
                    | Some p \<Rightarrow> if p < d then dir_get ds p k else None))
      else None)"
  by pat_completeness auto
termination
  by (relation "measure (\<lambda>(ds, d, k). d)") auto

declare dir_get.simps [simp del]

text \<open>\<^verbatim>\<open>listeners.__ember_source__\<close>, own or inherited.\<close>

function dir_source :: "directory list \<Rightarrow> nat \<Rightarrow> nat option" where
  "dir_source ds d =
     (if d < length ds then
        (case dsource (ds ! d) of
           Some obj \<Rightarrow> Some obj
         | None \<Rightarrow> (case proto (ds ! d) of
                      None \<Rightarrow> None
                    | Some p \<Rightarrow> if p < d then dir_source ds p else None))
      else None)"
  by pat_completeness auto
termination
  by (relation "measure (\<lambda>(ds, d). d)") auto

declare dir_source.simps [simp del]

text \<open>
  The order in which the engines enumerate the own properties of an object: the names
  that are array indices (a decimal numeral without leading zero, below \<^verbatim>\<open>2^32 - 1\<close>)
  first, in ascending order, then the other names in the order of their creation.
\<close>

definition array_index :: "string \<Rightarrow> int option" where
  "array_index k =
     (let n = fold (\<lambda>c n. 10 * n + (of_char c - 48)) k (0::int)
      in if k \<noteq> [] \<and> list_all (\<lambda>c. c \<in> set ''0123456789'') k \<and>
            (k = ''0'' \<or> hd k \<noteq> CHR ''0'') \<and> n < 4294967295
         then Some n else None)"

definition enum_order :: "string list \<Rightarrow> string list" where
  "enum_order ks =
     sort_key (\<lambda>k. case array_index k of Some n \<Rightarrow> n | None \<Rightarrow> 0)
       (filter (\<lambda>k. array_index k \<noteq> None) ks) @
     filter (\<lambda>k. array_index k = None) ks"



text \<open>\<^verbatim>\<open>listeners[eventName] = v\<close> on the directory at address \<open>d\<close>: an own property.\<close>

definition set_event :: "store \<Rightarrow> nat \<Rightarrow> string \<Rightarrow> slot \<Rightarrow> store" where
  "set_event s d k v =
     s\<lparr>dirs := (dirs s)[d := (dirs s ! d)\<lparr>events := set_prop k v (events (dirs s ! d))\<rparr>]\<rparr>"

text \<open>
  Modelled from the spec: \<^verbatim>\<open>Ember.metaPath(obj, ['listeners'], true)\<close> (ember-metal/utils,
  not in this file) returns a directory that \<open>obj\<close> may write: the one of its slot when
  its source marker is \<open>obj\<close>, else a fresh one whose prototype is the shared directory
  and whose marker is \<open>obj\<close> (section 3 of the spec: a writer whose marker does not match
  forks first).
\<close>

definition metaPath_listeners :: "store \<Rightarrow> nat \<Rightarrow> nat \<times> store" where
  "metaPath_listeners s obj =
     (case listeners s obj of
        None \<Rightarrow>
          (length (dirs s),
           s\<lparr>dirs := dirs s @ [\<lparr>proto = None, dsource = Some obj, events = []\<rparr>],
             listeners := (listeners s)(obj \<mapsto> length (dirs s))\<rparr>)
      | Some d \<Rightarrow>
          if dir_source (dirs s) d = Some obj then (d, s)
          else
            (length (dirs s),
             s\<lparr>dirs := dirs s @ [\<lparr>proto = Some d, dsource = Some obj, events = []\<rparr>],
               listeners := (listeners s)(obj \<mapsto> length (dirs s))\<rparr>))"

section \<open>The functions of events.js\<close>

text \<open>
  \<^verbatim>\<open>actionsFor(obj, eventName, target, writable)\<close>. The source ignores \<^verbatim>\<open>target\<close> and
  every caller passes \<^verbatim>\<open>writable = true\<close>. In order: a missing directory is created
  (without a marker); the entry of the event is read through the prototype chain and, when
  it is missing or \<^verbatim>\<open>null\<close>, a fresh object marked with \<open>obj\<close> takes its place; the entry is
  written as an own property of the directory of the slot \<^emph>\<open>before\<close> the marker is looked
  at; then, when the marker of the object is not \<open>obj\<close>, a new directory is made from the
  old one by \<^verbatim>\<open>o_create\<close> and a copy of the object (without a marker) is stored in it.
  Copying reads \<^verbatim>\<open>actions.methods[i].slice()\<close>, a \<^verbatim>\<open>TypeError\<close> at a hole.

  When the read finds a function of \<^verbatim>\<open>Object.prototype\<close> (an event named \<^verbatim>\<open>toString\<close>,
  say), that function is what is written to the directory; it carries no marker, so the
  new directory is made, and \<^verbatim>\<open>actions.methods.length\<close> is a \<^verbatim>\<open>TypeError\<close>.
\<close>

definition actionsFor :: "store \<Rightarrow> nat \<Rightarrow> string \<Rightarrow> (error + nat) \<times> store" where
  "actionsFor s obj eventName =
     (let (d, s1) =
            (case listeners s obj of
               Some d \<Rightarrow> (d, s)
             | None \<Rightarrow>
                 (length (dirs s),
                  s\<lparr>dirs := dirs s @ [\<lparr>proto = None, dsource = None, events = []\<rparr>],
                    listeners := (listeners s)(obj \<mapsto> length (dirs s))\<rparr>))
      in case dir_get (dirs s1) d eventName of
           Some Builtin \<Rightarrow>
             (let s3 = set_event s1 d eventName Builtin
              in (Inl TypeError,
                  s3\<lparr>dirs := dirs s3 @ [\<lparr>proto = Some d, dsource = Some obj, events = []\<rparr>],
                    listeners := (listeners s3)(obj \<mapsto> length (dirs s3))\<rparr>))
         | entry \<Rightarrow>
             (let (a, s2) =
                    (case entry of
                       Some (Ref a) \<Rightarrow> (a, s1)
                     | _ \<Rightarrow>
                         (length (acts s1),
                          s1\<lparr>acts := acts s1 @ [\<lparr>source = Some obj, targets = [], methods = []\<rparr>]\<rparr>));
                  s3 = set_event s2 d eventName (Ref a);
                  A = acts s3 ! a
              in if source A \<noteq> Some obj then
                   (let d' = length (dirs s3);
                        s4 = s3\<lparr>dirs := dirs s3 @ [\<lparr>proto = Some d, dsource = Some obj, events = []\<rparr>],
                                listeners := (listeners s3)(obj \<mapsto> d')\<rparr>
                    in if None \<in> set (methods A) then (Inl TypeError, s4)
                       else
                         (let a' = length (acts s4);
                              s5 = s4\<lparr>acts := acts s4 @
                                         [\<lparr>source = None, targets = targets A, methods = methods A\<rparr>]\<rparr>
                          in (Inr a', set_event s5 d' eventName (Ref a'))))
                 else (Inr a, s3)))"

text \<open>
  \<^verbatim>\<open>targetSetFor(obj, eventName)\<close>: \<open>None\<close> stands for a result on which \<^verbatim>\<open>iterateSet\<close>
  returns \<^verbatim>\<open>false\<close> at once and which \<^verbatim>\<open>sendEvent\<close> hands to it unchanged: the
  \<^verbatim>\<open>false\<close> the source returns when there is no directory, no entry, or a \<^verbatim>\<open>null\<close>
  entry, and a function of \<^verbatim>\<open>Object.prototype\<close>, which has no \<^verbatim>\<open>targets\<close>.
\<close>

definition targetSetFor :: "store \<Rightarrow> nat \<Rightarrow> string \<Rightarrow> nat option" where
  "targetSetFor s obj eventName =
     (case listeners s obj of
        None \<Rightarrow> None
      | Some d \<Rightarrow> (case dir_get (dirs s) d eventName of Some (Ref a) \<Rightarrow> Some a | _ \<Rightarrow> None))"

text \<open>
  \<^verbatim>\<open>iterateSet(actions, callback)\<close>. The callback may change the object that is being
  iterated, so the loop reads it again at every step through \<open>get\<close> (the current content
  of the object the loop was started on): \<^verbatim>\<open>targets.length\<close> is read once, before the
  loop; \<^verbatim>\<open>targets[i]\<close> and the array \<^verbatim>\<open>methods[i]\<close> are read when row \<open>i\<close> starts, its
  length once; \<^verbatim>\<open>methods[j]\<close> is read from that array when index \<open>j\<close> is reached,
  going down. The array of a row is named by its index: no function of the file removes
  or replaces an entry of \<^verbatim>\<open>actions.methods\<close> that holds an array. A falsy entry is
  skipped; the loop stops when the callback returns \<^verbatim>\<open>true\<close>. \<^verbatim>\<open>methods.length\<close> on a
  missing row is a \<^verbatim>\<open>TypeError\<close>.
\<close>

fun iterate_methods ::
  "('st \<Rightarrow> actions) \<Rightarrow> (val \<times> val \<Rightarrow> 'st \<Rightarrow> (error + bool) \<times> 'st) \<Rightarrow> nat \<Rightarrow> val \<Rightarrow> nat \<Rightarrow> 'st
     \<Rightarrow> (error + bool) \<times> 'st" where
  "iterate_methods get callback i target 0 st = (Inr False, st)"
| "iterate_methods get callback i target (Suc j) st =
     (let method = nth_val (case row_at (methods (get st)) (Some i) of Some r \<Rightarrow> r | None \<Rightarrow> []) j
      in if \<not> truthy method then iterate_methods get callback i target j st
         else (case callback (target, method) st of
                 (Inl e, st') \<Rightarrow> (Inl e, st')
               | (Inr stop, st') \<Rightarrow>
                   if stop then (Inr True, st')
                   else iterate_methods get callback i target j st'))"

fun iterate_targets ::
  "('st \<Rightarrow> actions) \<Rightarrow> (val \<times> val \<Rightarrow> 'st \<Rightarrow> (error + bool) \<times> 'st) \<Rightarrow> nat \<Rightarrow> nat \<Rightarrow> 'st
     \<Rightarrow> (error + bool) \<times> 'st" where
  "iterate_targets get callback i 0 st = (Inr False, st)"
| "iterate_targets get callback i (Suc n) st =
     (let target = nth_val (targets (get st)) i
      in case row_at (methods (get st)) (Some i) of
           None \<Rightarrow> (Inl TypeError, st)
         | Some row \<Rightarrow>
             (case iterate_methods get callback i target (length row) st of
                (Inl e, st') \<Rightarrow> (Inl e, st')
              | (Inr stop, st') \<Rightarrow>
                  if stop then (Inr True, st')
                  else iterate_targets get callback (Suc i) n st'))"

definition iterateSet ::
  "('st \<Rightarrow> actions) \<Rightarrow> (val \<times> val \<Rightarrow> 'st \<Rightarrow> (error + bool) \<times> 'st) \<Rightarrow> 'st \<Rightarrow> (error + bool) \<times> 'st" where
  "iterateSet get callback st = iterate_targets get callback 0 (length (targets (get st))) st"

text \<open>
  The argument shuffle at the head of \<^verbatim>\<open>addListener\<close>, \<^verbatim>\<open>removeListener\<close> and the two
  suspend functions: \<^verbatim>\<open>if (!method && 'function' === typeof target)\<close>.
\<close>

definition shuffle :: "val \<Rightarrow> val \<Rightarrow> val \<times> val" where
  "shuffle target method =
     (if \<not> truthy method \<and> is_function target then (Null, target) else (target, method))"

text \<open>
  \<^verbatim>\<open>addListener(obj, eventName, target, method)\<close>. \<^verbatim>\<open>Ember.assert\<close> throws on an empty
  event name (an owner is an object, hence truthy). The owners of the model define none
  of the optional hooks (\<^verbatim>\<open>didAddListener\<close>, \<^verbatim>\<open>didRemoveListener\<close>, \<^verbatim>\<open>sendEvent\<close>).
\<close>

definition addListener :: "store \<Rightarrow> nat \<Rightarrow> string \<Rightarrow> val \<Rightarrow> val \<Rightarrow> (error + unit) \<times> store" where
  "addListener s obj eventName target0 method0 =
     (if eventName = [] then (Inl AssertionFailed, s)
      else
        (let (target, method) = shuffle target0 method0
         in case actionsFor s obj eventName of
              (Inl e, s1) \<Rightarrow> (Inl e, s1)
            | (Inr a, s1) \<Rightarrow>
                (let A = acts s1 ! a
                 in case indexOf (targets A) target of
                      Some i \<Rightarrow>
                        (let targetMethods =
                               (case row_at (methods A) (Some i) of Some r \<Rightarrow> r | None \<Rightarrow> []);
                             row' = (if indexOf targetMethods method = None
                                     then targetMethods @ [method] else targetMethods)
                         in (Inr (), s1\<lparr>acts := (acts s1)[a := A\<lparr>methods := set_row (methods A) i row'\<rparr>]\<rparr>))
                    | None \<Rightarrow>
                        (Inr (), s1\<lparr>acts := (acts s1)[a := A\<lparr>targets := targets A @ [target],
                                                            methods := methods A @ [Some [method]]\<rparr>]\<rparr>))))"

text \<open>
  The inner function \<^verbatim>\<open>_removeListener(target, method)\<close> of \<^verbatim>\<open>removeListener\<close>.
  \<^verbatim>\<open>actions.methods[targetIndex] || []\<close> is a fresh empty array when the target has no
  row; \<^verbatim>\<open>targets.splice(targetIndex, 1)\<close> runs whenever the array at hand is empty, with
  \<^verbatim>\<open>targetIndex = -1\<close> too, and \<^verbatim>\<open>actions.methods\<close> itself is never spliced.
\<close>

definition removeListener_one :: "store \<Rightarrow> nat \<Rightarrow> string \<Rightarrow> val \<Rightarrow> val \<Rightarrow> (error + unit) \<times> store" where
  "removeListener_one s obj eventName target method =
     (case actionsFor s obj eventName of
        (Inl e, s1) \<Rightarrow> (Inl e, s1)
      | (Inr a, s1) \<Rightarrow>
          (let A = acts s1 ! a;
               targetIndex = indexOf (targets A) target;
               found = row_at (methods A) targetIndex;
               targetMethods = (case found of Some r \<Rightarrow> r | None \<Rightarrow> []);
               targetMethodIndex = indexOf targetMethods method;
               targetMethods' = (case targetMethodIndex of
                                   Some j \<Rightarrow> splice1 (Some j) targetMethods
                                 | None \<Rightarrow> targetMethods);
               ms' = (case (found, targetIndex) of
                        (Some r, Some i) \<Rightarrow> (methods A)[i := Some targetMethods']
                      | _ \<Rightarrow> methods A);
               ts' = (if targetMethods' = [] then splice1 targetIndex (targets A) else targets A)
           in (Inr (), s1\<lparr>acts := (acts s1)[a := A\<lparr>targets := ts', methods := ms'\<rparr>]\<rparr>)))"

text \<open>
  \<^verbatim>\<open>removeListener(obj, eventName, target, method)\<close>: with a method, one call of the inner
  function; without, the inner function is called for every action that \<^verbatim>\<open>iterateSet\<close>
  visits on the object \<^verbatim>\<open>targetSetFor\<close> returns, with the action's own target.
\<close>

definition removeListener :: "store \<Rightarrow> nat \<Rightarrow> string \<Rightarrow> val \<Rightarrow> val \<Rightarrow> (error + unit) \<times> store" where
  "removeListener s obj eventName target0 method0 =
     (if eventName = [] then (Inl AssertionFailed, s)
      else
        (let (target, method) = shuffle target0 method0
         in if truthy method then removeListener_one s obj eventName target method
            else
              (case targetSetFor s obj eventName of
                 None \<Rightarrow> (Inr (), s)
               | Some a \<Rightarrow>
                   (case iterateSet (\<lambda>s'. acts s' ! a)
                           (\<lambda>action s'.
                              case removeListener_one s' obj eventName (fst action) (snd action) of
                                (Inl e, s'') \<Rightarrow> (Inl e, s'')
                              | (Inr u, s'') \<Rightarrow> (Inr False, s''))
                           s of
                      (Inl e, s') \<Rightarrow> (Inl e, s')
                    | (Inr b, s') \<Rightarrow> (Inr (), s')))))"

text \<open>\<^verbatim>\<open>listenersFor(obj, eventName)\<close>: the pairs \<^verbatim>\<open>iterateSet\<close> visits, in its order.\<close>

definition listenersFor :: "store \<Rightarrow> nat \<Rightarrow> string \<Rightarrow> error + (val \<times> val) list" where
  "listenersFor s obj eventName =
     (case targetSetFor s obj eventName of
        None \<Rightarrow> Inr []
      | Some a \<Rightarrow>
          (case iterateSet (\<lambda>ret. acts s ! a) (\<lambda>action ret. (Inr False, ret @ [action])) [] of
             (Inl e, ret) \<Rightarrow> Inl e
           | (Inr b, ret) \<Rightarrow> Inr ret))"

text \<open>
  \<^verbatim>\<open>hasListeners(obj, eventName)\<close>: \<^verbatim>\<open>true\<close> at the first action visited; otherwise the
  entry of the event is set to \<^verbatim>\<open>null\<close> in a directory of the owner's and the result is
  \<^verbatim>\<open>false\<close>.
\<close>

definition hasListeners :: "store \<Rightarrow> nat \<Rightarrow> string \<Rightarrow> (error + bool) \<times> store" where
  "hasListeners s obj eventName =
     (case (case targetSetFor s obj eventName of
              None \<Rightarrow> (Inr False, ())
            | Some a \<Rightarrow> iterateSet (\<lambda>u. acts s ! a) (\<lambda>action u. (Inr True, u)) ()) of
        (Inl e, u) \<Rightarrow> (Inl e, s)
      | (Inr found, u) \<Rightarrow>
          if found then (Inr True, s)
          else (let (d, s1) = metaPath_listeners s obj
                in (Inr False, set_event s1 d eventName NoListeners)))"



section \<open>Dispatch\<close>

text \<open>
  What a listener does when it runs is user code. The model gives every function a body
  made of calls back into the registry, which is what the claims about re-entrant
  dispatch speak of; \<open>code f\<close> is the body of function \<open>f\<close>.
\<close>

datatype call = AddListener nat string val val | RemoveListener nat string val val

fun run_call :: "store \<Rightarrow> call \<Rightarrow> (error + unit) \<times> store" where
  "run_call s (AddListener obj eventName target method) = addListener s obj eventName target method"
| "run_call s (RemoveListener obj eventName target method) = removeListener s obj eventName target method"

fun run_calls :: "store \<Rightarrow> call list \<Rightarrow> (error + unit) \<times> store" where
  "run_calls s [] = (Inr (), s)"
| "run_calls s (c # cs) =
     (case run_call s c of
        (Inl e, s') \<Rightarrow> (Inl e, s')
      | (Inr u, s') \<Rightarrow> run_calls s' cs)"

text \<open>
  \<^verbatim>\<open>invokeAction(action, params, sender)\<close>. A falsy target is replaced by the sender, a
  string method is looked up on the target at this moment (\<open>props\<close> reads a property of
  an object), and \<^verbatim>\<open>method.apply\<close> throws a \<^verbatim>\<open>TypeError\<close> on what is not a function. The
  log records each call that was made: the \<^verbatim>\<open>this\<close> object and the function. The
  parameters are passed through and play no part in the registry, so they are left out.
\<close>

definition invokeAction ::
  "(nat \<Rightarrow> call list) \<Rightarrow> (val \<Rightarrow> string \<Rightarrow> val) \<Rightarrow> val \<times> val \<Rightarrow> nat \<Rightarrow> store \<times> (val \<times> val) list
     \<Rightarrow> (error + unit) \<times> store \<times> (val \<times> val) list" where
  "invokeAction code props action sender w =
     (let target = (if \<not> truthy (fst action) then Obj sender else fst action);
          method = (case snd action of Str name \<Rightarrow> props target name | m \<Rightarrow> m)
      in case method of
           Fun f \<Rightarrow>
             (case run_calls (fst w) (code f) of
                (r, s') \<Rightarrow> (r, (s', snd w @ [(target, Fun f)])))
         | _ \<Rightarrow> (Inl TypeError, w))"

text \<open>
  \<^verbatim>\<open>sendEvent(obj, eventName, params, targetSet)\<close>: the set is the one passed, else the
  one \<^verbatim>\<open>targetSetFor\<close> returns; the callback returns nothing, so the iteration never
  stops early; the result is \<^verbatim>\<open>true\<close>. The second component is the store after the
  dispatch and the log of the calls made.
\<close>

definition sendEvent ::
  "(nat \<Rightarrow> call list) \<Rightarrow> (val \<Rightarrow> string \<Rightarrow> val) \<Rightarrow> store \<Rightarrow> nat \<Rightarrow> string \<Rightarrow> nat option
     \<Rightarrow> (error + bool) \<times> store \<times> (val \<times> val) list" where
  "sendEvent code props s obj eventName targetSet =
     (case (case targetSet of Some a \<Rightarrow> Some a | None \<Rightarrow> targetSetFor s obj eventName) of
        None \<Rightarrow> (Inr True, (s, []))
      | Some a \<Rightarrow>
          (case iterateSet (\<lambda>w. acts (fst w) ! a)
                  (\<lambda>action w.
                     case invokeAction code props action obj w of
                       (Inl e, w') \<Rightarrow> (Inl e, w')
                     | (Inr u, w') \<Rightarrow> (Inr False, w'))
                  (s, []) of
             (Inl e, w) \<Rightarrow> (Inl e, w)
           | (Inr b, w) \<Rightarrow> (Inr True, w)))"

section \<open>Suspension\<close>

text \<open>\<^verbatim>\<open>targetMethods.push(v)\<close> on the array of row \<open>i\<close> of the object at \<open>a\<close>.\<close>

definition push_row :: "store \<Rightarrow> nat \<Rightarrow> nat \<Rightarrow> val \<Rightarrow> store" where
  "push_row s a i v =
     (let A = acts s ! a;
          r = (case row_at (methods A) (Some i) of Some r \<Rightarrow> r | None \<Rightarrow> [])
      in s\<lparr>acts := (acts s)[a := A\<lparr>methods := (methods A)[i := Some (r @ [v])]\<rparr>]\<rparr>)"

text \<open>
  \<^verbatim>\<open>suspendListener(obj, eventName, target, method, callback)\<close>. The callback is user
  code: it gets \<^verbatim>\<open>this\<close> and the store, and returns a value or throws, with the store it
  leaves. \<^verbatim>\<open>targetMethods.indexOf\<close> is a \<^verbatim>\<open>TypeError\<close> when the target has no row
  (\<^verbatim>\<open>actions.methods[-1]\<close> is \<^verbatim>\<open>undefined\<close>), before the \<^verbatim>\<open>try\<close> is entered. The
  \<^verbatim>\<open>finally\<close> block pushes the removed method back on the same array.
\<close>

definition suspendListener ::
  "store \<Rightarrow> nat \<Rightarrow> string \<Rightarrow> val \<Rightarrow> val \<Rightarrow> (val \<Rightarrow> store \<Rightarrow> (error + val) \<times> store)
     \<Rightarrow> (error + val) \<times> store" where
  "suspendListener s obj eventName target0 method0 callback =
     (let (target, method) = shuffle target0 method0
      in case actionsFor s obj eventName of
           (Inl e, s1) \<Rightarrow> (Inl e, s1)
         | (Inr a, s1) \<Rightarrow>
             (let A = acts s1 ! a;
                  targetIndex = indexOf (targets A) target
              in case (targetIndex, row_at (methods A) targetIndex) of
                   (Some i, Some targetMethods) \<Rightarrow>
                     (case indexOf targetMethods method of
                        Some j \<Rightarrow>
                          (let s2 = s1\<lparr>acts := (acts s1)[a := A\<lparr>methods :=
                                          (methods A)[i := Some (splice1 (Some j) targetMethods)]\<rparr>]\<rparr>;
                               (r, s3) = callback target s2
                           in (r, if truthy method then push_row s3 a i method else s3))
                      | None \<Rightarrow> callback target s1)
                 | _ \<Rightarrow> (Inl TypeError, s1)))"

text \<open>
  \<^verbatim>\<open>suspendListeners(obj, eventNames, target, method, callback)\<close>. The loop over the
  event names pushes on \<^verbatim>\<open>removedMethods\<close> only when the method was found, and on
  \<^verbatim>\<open>targetMethodArrays\<close> for every event; the \<^verbatim>\<open>finally\<close> block pairs the two arrays
  index by index, up to the length of \<^verbatim>\<open>removedMethods\<close>. An array is named by the
  address of its object and its row.
\<close>

fun suspend_loop ::
  "store \<Rightarrow> nat \<Rightarrow> val \<Rightarrow> val \<Rightarrow> string list \<Rightarrow> val list \<Rightarrow> (nat \<times> nat) list
     \<Rightarrow> (error + val list \<times> (nat \<times> nat) list) \<times> store" where
  "suspend_loop s obj target method [] removedMethods targetMethodArrays =
     (Inr (removedMethods, targetMethodArrays), s)"
| "suspend_loop s obj target method (eventName # rest) removedMethods targetMethodArrays =
     (case actionsFor s obj eventName of
        (Inl e, s1) \<Rightarrow> (Inl e, s1)
      | (Inr a, s1) \<Rightarrow>
          (let A = acts s1 ! a;
               targetIndex = indexOf (targets A) target
           in case (targetIndex, row_at (methods A) targetIndex) of
                (Some i, Some targetMethods) \<Rightarrow>
                  (case indexOf targetMethods method of
                     Some j \<Rightarrow>
                       suspend_loop
                         (s1\<lparr>acts := (acts s1)[a := A\<lparr>methods :=
                                 (methods A)[i := Some (splice1 (Some j) targetMethods)]\<rparr>]\<rparr>)
                         obj target method rest
                         (removedMethods @ [method]) (targetMethodArrays @ [(a, i)])
                   | None \<Rightarrow>
                       suspend_loop s1 obj target method rest
                         removedMethods (targetMethodArrays @ [(a, i)]))
              | _ \<Rightarrow> (Inl TypeError, s1)))"

fun restore_loop :: "store \<Rightarrow> val list \<Rightarrow> (nat \<times> nat) list \<Rightarrow> store" where
  "restore_loop s (v # removedMethods) (ai # targetMethodArrays) =
     restore_loop (push_row s (fst ai) (snd ai) v) removedMethods targetMethodArrays"
| "restore_loop s removedMethods targetMethodArrays = s"

definition suspendListeners ::
  "store \<Rightarrow> nat \<Rightarrow> string list \<Rightarrow> val \<Rightarrow> val \<Rightarrow> (val \<Rightarrow> store \<Rightarrow> (error + val) \<times> store)
     \<Rightarrow> (error + val) \<times> store" where
  "suspendListeners s obj eventNames target0 method0 callback =
     (let (target, method) = shuffle target0 method0
      in case suspend_loop s obj target method eventNames [] [] of
           (Inl e, s1) \<Rightarrow> (Inl e, s1)
         | (Inr (removedMethods, targetMethodArrays), s1) \<Rightarrow>
             (let (r, s2) = callback target s1
              in (r, restore_loop s2 removedMethods targetMethodArrays)))"

section \<open>Union and difference\<close>

text \<open>
  The accumulator of \<^verbatim>\<open>targetSetUnion\<close> and \<^verbatim>\<open>targetSetDiff\<close> is an object of the
  caller's, passed in and returned here as a value.

  \<^verbatim>\<open>addAction(actions, action)\<close>: a push on the target's row when the row exists and does
  not hold the method, a new row in every other case.
\<close>

definition addAction :: "actions \<Rightarrow> val \<times> val \<Rightarrow> actions" where
  "addAction A action =
     (let targetIndex = indexOf (targets A) (fst action)
      in case (targetIndex, row_at (methods A) targetIndex) of
           (Some i, Some targetMethods) \<Rightarrow>
             if indexOf targetMethods (snd action) = None
             then A\<lparr>methods := (methods A)[i := Some (targetMethods @ [snd action])]\<rparr>
             else A\<lparr>targets := targets A @ [fst action], methods := methods A @ [Some [snd action]]\<rparr>
         | _ \<Rightarrow> A\<lparr>targets := targets A @ [fst action], methods := methods A @ [Some [snd action]]\<rparr>)"

text \<open>
  \<^verbatim>\<open>targetSetDiff(obj, eventName, actions)\<close>: the result is the new object
  \<^verbatim>\<open>diffActions\<close>, next to the accumulator as the call leaves it.
\<close>

definition targetSetDiff :: "store \<Rightarrow> nat \<Rightarrow> string \<Rightarrow> actions \<Rightarrow> (error + actions) \<times> actions" where
  "targetSetDiff s obj eventName actions =
     (let diffActions = \<lparr>source = None, targets = [], methods = []\<rparr>
      in case targetSetFor s obj eventName of
           None \<Rightarrow> (Inr diffActions, actions)
         | Some a \<Rightarrow>
             (case iterateSet (\<lambda>st. acts s ! a)
                     (\<lambda>action st.
                        case row_at (methods (fst st)) (indexOf (targets (fst st)) (fst action)) of
                          Some targetMethods \<Rightarrow>
                            if indexOf targetMethods (snd action) \<noteq> None then (Inr False, st)
                            else (Inr False, (addAction (fst st) action, addAction (snd st) action))
                        | None \<Rightarrow> (Inr False, (addAction (fst st) action, addAction (snd st) action)))
                     (actions, diffActions) of
                (Inl e, st) \<Rightarrow> (Inl e, fst st)
              | (Inr b, st) \<Rightarrow> (Inr (snd st), fst st)))"

text \<open>
  \<^verbatim>\<open>targetSetUnion(obj, eventName, actions)\<close>: \<^verbatim>\<open>targetMethods.indexOf\<close> is a
  \<^verbatim>\<open>TypeError\<close> when the accumulator has the target and a hole for its row.
\<close>

definition targetSetUnion :: "store \<Rightarrow> nat \<Rightarrow> string \<Rightarrow> actions \<Rightarrow> (error + unit) \<times> actions" where
  "targetSetUnion s obj eventName actions =
     (case targetSetFor s obj eventName of
        None \<Rightarrow> (Inr (), actions)
      | Some a \<Rightarrow>
          (case iterateSet (\<lambda>st. acts s ! a)
                  (\<lambda>action st.
                     case indexOf (targets st) (fst action) of
                       Some i \<Rightarrow>
                         (case row_at (methods st) (Some i) of
                            None \<Rightarrow> (Inl TypeError, st)
                          | Some targetMethods \<Rightarrow>
                              if indexOf targetMethods (snd action) = None
                              then (Inr False, st\<lparr>methods := (methods st)[i := Some (targetMethods @ [snd action])]\<rparr>)
                              else (Inr False, st))
                     | None \<Rightarrow>
                         (Inr False, st\<lparr>targets := targets st @ [fst action],
                                         methods := methods st @ [Some [snd action]]\<rparr>))
                  actions of
             (Inl e, st) \<Rightarrow> (Inl e, st)
           | (Inr b, st) \<Rightarrow> (Inr (), st)))"

section \<open>Notions used in the statements\<close>

text \<open>
  The rest of the definitions are not part of the program: they name what the theorems
  speak about.

  The array of row \<open>i\<close> of an \<open>actions\<close> object (empty when the row is missing), the
  pairs \<^verbatim>\<open>iterateSet\<close> visits in that row (methods from the last to the first, falsy
  entries skipped), and all the pairs it visits. \<open>rows_ok\<close>: every target has a row.
\<close>

definition row_list :: "actions \<Rightarrow> nat \<Rightarrow> val list" where
  "row_list A i = (case row_at (methods A) (Some i) of Some r \<Rightarrow> r | None \<Rightarrow> [])"

definition row_pairs :: "actions \<Rightarrow> nat \<Rightarrow> (val \<times> val) list" where
  "row_pairs A i = map (Pair (nth_val (targets A) i)) (filter truthy (rev (row_list A i)))"

definition pairs_of :: "actions \<Rightarrow> (val \<times> val) list" where
  "pairs_of A = concat (map (row_pairs A) [0..<length (targets A)])"

definition rows_ok :: "actions \<Rightarrow> bool" where
  "rows_ok A = list_all (\<lambda>i. row_at (methods A) (Some i) \<noteq> None) [0..<length (targets A)]"

text \<open>The state change of one step of the \<^verbatim>\<open>targetSetDiff\<close> callback.\<close>

definition diff_step :: "val \<times> val \<Rightarrow> actions \<times> actions \<Rightarrow> actions \<times> actions" where
  "diff_step action st =
     (case row_at (methods (fst st)) (indexOf (targets (fst st)) (fst action)) of
        Some targetMethods \<Rightarrow>
          if indexOf targetMethods (snd action) \<noteq> None then st
          else (addAction (fst st) action, addAction (snd st) action)
      | None \<Rightarrow> (addAction (fst st) action, addAction (snd st) action))"

text \<open>
  A store as the functions of the file build it: the slot of an owner and the entries
  of a directory refer to objects that exist, and in every \<open>actions\<close> object the
  \<^verbatim>\<open>methods\<close> array is at least as long as \<^verbatim>\<open>targets\<close> and has no hole. (The two
  arrays need not be aligned: \<^verbatim>\<open>_removeListener\<close> shortens \<^verbatim>\<open>targets\<close> alone.)
\<close>

definition store_ok :: "store \<Rightarrow> bool" where
  "store_ok s \<longleftrightarrow>
     (\<forall>obj d. listeners s obj = Some d \<longrightarrow> d < length (dirs s)) \<and>
     (\<forall>D\<in>set (dirs s). \<forall>k a. (k, Ref a) \<in> set (events D) \<longrightarrow> a < length (acts s)) \<and>
     (\<forall>A\<in>set (acts s). length (targets A) \<le> length (methods A) \<and> None \<notin> set (methods A))"

text \<open>
  Event names. \<open>sees_builtin\<close>: a read of the owner's directory under the name finds a
  function of \<^verbatim>\<open>Object.prototype\<close> (for an owner without a directory: the read of the
  directory \<^verbatim>\<open>actionsFor\<close> creates). \<open>event_name\<close>: a name that is not empty, is not one
  of the two names the model leaves out, and is not a property of \<^verbatim>\<open>Object.prototype\<close>.
  \<open>plain_store\<close>: the directories hold such a function only under its own name, as in
  every store the functions of the file build.
\<close>

definition sees_builtin :: "store \<Rightarrow> nat \<Rightarrow> string \<Rightarrow> bool" where
  "sees_builtin s obj e \<longleftrightarrow>
     (case listeners s obj of
        None \<Rightarrow> proto_get e = Some Builtin
      | Some d \<Rightarrow> dir_get (dirs s) d e = Some Builtin)"



text \<open>The directory of the owner's slot has the own property \<open>e\<close> with value \<open>v\<close>.\<close>

definition own_entry :: "store \<Rightarrow> nat \<Rightarrow> string \<Rightarrow> slot \<Rightarrow> bool" where
  "own_entry s obj e v =
     (case listeners s obj of
        None \<Rightarrow> False
      | Some d \<Rightarrow> d < length (dirs s) \<and> map_of (events (dirs s ! d)) e = Some v)"

text \<open>
  What \<^verbatim>\<open>addListener\<close> and \<^verbatim>\<open>_removeListener\<close> do to the object \<^verbatim>\<open>actionsFor\<close> hands
  them (the bodies of the two functions after that call).
\<close>

definition add_to :: "actions \<Rightarrow> val \<Rightarrow> val \<Rightarrow> actions" where
  "add_to A target method =
     (case indexOf (targets A) target of
        Some i \<Rightarrow>
          (let targetMethods = (case row_at (methods A) (Some i) of Some r \<Rightarrow> r | None \<Rightarrow> []);
               row' = (if indexOf targetMethods method = None
                       then targetMethods @ [method] else targetMethods)
           in A\<lparr>methods := set_row (methods A) i row'\<rparr>)
      | None \<Rightarrow> A\<lparr>targets := targets A @ [target], methods := methods A @ [Some [method]]\<rparr>)"

definition remove_from :: "actions \<Rightarrow> val \<Rightarrow> val \<Rightarrow> actions" where
  "remove_from A target method =
     (let targetIndex = indexOf (targets A) target;
          found = row_at (methods A) targetIndex;
          targetMethods = (case found of Some r \<Rightarrow> r | None \<Rightarrow> []);
          targetMethodIndex = indexOf targetMethods method;
          targetMethods' = (case targetMethodIndex of
                              Some j \<Rightarrow> splice1 (Some j) targetMethods
                            | None \<Rightarrow> targetMethods);
          ms' = (case (found, targetIndex) of
                   (Some r, Some i) \<Rightarrow> (methods A)[i := Some targetMethods']
                 | _ \<Rightarrow> methods A);
          ts' = (if targetMethods' = [] then splice1 targetIndex (targets A) else targets A)
      in A\<lparr>targets := ts', methods := ms'\<rparr>)"

text \<open>
  The action set an owner sees for an event, as a value: the object \<^verbatim>\<open>targetSetFor\<close>
  returns with its marker erased, the empty set when there is none. \<open>in_place\<close>: the
  owner sees the object at \<open>a\<close> and the object carries the owner's marker, so that
  \<^verbatim>\<open>actionsFor\<close> returns it as it is.
\<close>

definition view :: "store \<Rightarrow> nat \<Rightarrow> string \<Rightarrow> actions" where
  "view s obj e =
     (case targetSetFor s obj e of
        None \<Rightarrow> \<lparr>source = None, targets = [], methods = []\<rparr>
      | Some a \<Rightarrow> (acts s ! a)\<lparr>source := None\<rparr>)"

definition in_place :: "store \<Rightarrow> nat \<Rightarrow> string \<Rightarrow> nat \<Rightarrow> bool" where
  "in_place s obj e a \<longleftrightarrow> targetSetFor s obj e = Some a \<and> source (acts s ! a) = Some obj"

text \<open>
  The \<^verbatim>\<open>this\<close> object and the function \<^verbatim>\<open>invokeAction\<close> calls for a stored target and
  method, and the callback \<^verbatim>\<open>sendEvent\<close> passes to \<^verbatim>\<open>iterateSet\<close>.
\<close>

definition this_of :: "nat \<Rightarrow> val \<Rightarrow> val" where
  "this_of sender target = (if \<not> truthy target then Obj sender else target)"

definition callee :: "(val \<Rightarrow> string \<Rightarrow> val) \<Rightarrow> val \<Rightarrow> val \<Rightarrow> val" where
  "callee props this method = (case method of Str name \<Rightarrow> props this name | m \<Rightarrow> m)"

definition dispatch_cb ::
  "(nat \<Rightarrow> call list) \<Rightarrow> (val \<Rightarrow> string \<Rightarrow> val) \<Rightarrow> nat \<Rightarrow> val \<times> val \<Rightarrow> store \<times> (val \<times> val) list
     \<Rightarrow> (error + bool) \<times> store \<times> (val \<times> val) list" where
  "dispatch_cb code props obj action w =
     (case invokeAction code props action obj w of
        (Inl e, w') \<Rightarrow> (Inl e, w')
      | (Inr u, w') \<Rightarrow> (Inr False, w'))"

text \<open>
  An action set as registrations alone build it: one row per target, aligned, the
  targets distinct, every row a non-empty array of distinct truthy methods.
\<close>

definition wf_actions :: "actions \<Rightarrow> bool" where
  "wf_actions A \<longleftrightarrow>
     length (targets A) = length (methods A) \<and> distinct (targets A) \<and>
     list_all (\<lambda>row. case row of None \<Rightarrow> False
                      | Some r \<Rightarrow> r \<noteq> [] \<and> distinct r \<and> list_all truthy r) (methods A)"

text \<open>
  For the removal of all listeners: one call of \<^verbatim>\<open>_removeListener\<close> as a change of an
  action set, the callback \<^verbatim>\<open>removeListener\<close> passes to \<^verbatim>\<open>iterateSet\<close>, and the case
  where the owner sees an object that carries another marker or none (every write then
  makes a copy).
\<close>

definition rm :: "val \<times> val \<Rightarrow> actions \<Rightarrow> actions" where
  "rm action A = remove_from A (fst action) (snd action)"



text \<open>
  For the dispatch with listeners that change the set (C5). \<open>aligned\<close>: one row per
  target, the targets distinct, every row a non-empty array of distinct methods.
  \<open>row_of\<close>: the row of a target. \<open>before\<close>: the methods that stand before the method
  of a pair in row \<open>i\<close>, that is, the ones the loop of \<^verbatim>\<open>iterateSet\<close> has still to visit
  in that row when it calls the pair. \<open>invoked\<close>: the entry of the log for a pair that
  is called.
\<close>

definition aligned :: "actions \<Rightarrow> bool" where
  "aligned A \<longleftrightarrow>
     length (targets A) = length (methods A) \<and> distinct (targets A) \<and>
     list_all (\<lambda>row. case row of None \<Rightarrow> False | Some r \<Rightarrow> r \<noteq> [] \<and> distinct r) (methods A)"

definition row_of :: "actions \<Rightarrow> val \<Rightarrow> val list" where
  "row_of A t = (case indexOf (targets A) t of None \<Rightarrow> [] | Some i \<Rightarrow> row_list A i)"

definition before :: "actions \<Rightarrow> nat \<Rightarrow> val \<Rightarrow> val list" where
  "before A i method = takeWhile (\<lambda>m. m \<noteq> method) (row_list A i)"


text \<open>
  A call that a listener makes while it runs is \<open>safe\<close>, in the store in which it is
  made, when it does not throw (the event name is not empty, and the owner does not read
  a function of \<^verbatim>\<open>Object.prototype\<close> under it when \<^verbatim>\<open>actionsFor\<close> is called) and, if it
  is a removal that writes the object under iteration (at \<open>a\<close>) in place, it names a
  method and
  \<^item> when the loop has rows to visit after the one of the running listener: the target
    of the removed pair has a row, the row holds more than the removed method, and the
    removed pair is not one of those before the running listener in its own row;
  \<^item> when the running listener is in the last row: the removal leaves the methods
    before the running listener in their place.

  Here \<open>T0\<close> are the targets the loop runs over, \<open>i\<close> is the row of the running listener
  and \<open>bef\<close> the methods before it when it was called. \<open>calls_safe\<close>: every call of a
  body is safe when its turn comes.
\<close>

definition safe_call :: "store \<Rightarrow> nat \<Rightarrow> val list \<Rightarrow> nat \<Rightarrow> val list \<Rightarrow> call \<Rightarrow> bool" where
  "safe_call s a T0 i bef c =
     (case c of
        AddListener obj e t0 m0 \<Rightarrow> e \<noteq> [] \<and> \<not> sees_builtin s obj e
      | RemoveListener obj e t0 m0 \<Rightarrow>
          e \<noteq> [] \<and> (truthy (snd (shuffle t0 m0)) \<longrightarrow> \<not> sees_builtin s obj e) \<and>
          (in_place s obj e a \<longrightarrow>
             truthy (snd (shuffle t0 m0)) \<and>
             (if Suc i < length T0
              then fst (shuffle t0 m0) \<in> set (targets (acts s ! a)) \<and>
                   row_of (acts s ! a) (fst (shuffle t0 m0)) \<noteq> [snd (shuffle t0 m0)] \<and>
                   \<not> (fst (shuffle t0 m0) = T0 ! i \<and> snd (shuffle t0 m0) \<in> set bef)
              else take (length bef)
                     (row_list (remove_from (acts s ! a) (fst (shuffle t0 m0)) (snd (shuffle t0 m0))) i)
                   = bef)))"

fun calls_safe :: "store \<Rightarrow> nat \<Rightarrow> val list \<Rightarrow> nat \<Rightarrow> val list \<Rightarrow> call list \<Rightarrow> bool" where
  "calls_safe s a T0 i bef [] = True"
| "calls_safe s a T0 i bef (c # cs) =
     (safe_call s a T0 i bef c \<and> calls_safe (snd (run_call s c)) a T0 i bef cs)"

definition listener_safe ::
  "(nat \<Rightarrow> call list) \<Rightarrow> (val \<Rightarrow> string \<Rightarrow> val) \<Rightarrow> store \<Rightarrow> nat \<Rightarrow> nat \<Rightarrow> val list \<Rightarrow> val \<times> val \<Rightarrow> bool" where
  "listener_safe code props s obj a T0 action =
     (case (callee props (this_of obj (fst action)) (snd action), indexOf T0 (fst action)) of
        (Fun f, Some i) \<Rightarrow> calls_safe s a T0 i (before (acts s ! a) i (snd action)) (code f)
      | _ \<Rightarrow> False)"

text \<open>
  The dispatch of \<^verbatim>\<open>sendEvent\<close> with an observer: the same loop and the same callback,
  which in addition records the pairs the callback is called with and whether every one
  of them resolved to a function whose calls were safe. \<open>dispatched\<close> is the list of the
  pairs called, \<open>dispatch_safe\<close> the verdict.
\<close>

definition monitor_cb ::
  "(nat \<Rightarrow> call list) \<Rightarrow> (val \<Rightarrow> string \<Rightarrow> val) \<Rightarrow> nat \<Rightarrow> nat \<Rightarrow> val list \<Rightarrow> val \<times> val
     \<Rightarrow> (store \<times> (val \<times> val) list) \<times> bool \<times> (val \<times> val) list
     \<Rightarrow> (error + bool) \<times> (store \<times> (val \<times> val) list) \<times> bool \<times> (val \<times> val) list" where
  "monitor_cb code props obj a T0 action st =
     (case dispatch_cb code props obj action (fst st) of
        (r, w') \<Rightarrow>
          (r, (w', fst (snd st) \<and> listener_safe code props (fst (fst st)) obj a T0 action,
               snd (snd st) @ [action])))"

definition monitor ::
  "(nat \<Rightarrow> call list) \<Rightarrow> (val \<Rightarrow> string \<Rightarrow> val) \<Rightarrow> store \<Rightarrow> nat \<Rightarrow> string \<Rightarrow> bool \<times> (val \<times> val) list" where
  "monitor code props s obj e =
     (case targetSetFor s obj e of
        None \<Rightarrow> (True, [])
      | Some a \<Rightarrow>
          snd (snd (iterateSet (\<lambda>st. acts (fst (fst st)) ! a)
                      (monitor_cb code props obj a (targets (acts s ! a)))
                      ((s, []), True, []))))"

definition dispatch_safe ::
  "(nat \<Rightarrow> call list) \<Rightarrow> (val \<Rightarrow> string \<Rightarrow> val) \<Rightarrow> store \<Rightarrow> nat \<Rightarrow> string \<Rightarrow> bool" where
  "dispatch_safe code props s obj e = fst (monitor code props s obj e)"





section \<open>Lemmas\<close>

subsection \<open>Iterating a set that does not change\<close>

lemma iterate_methods_pure:
  assumes cb: "\<And>p st. cb p st = (Inr False, f p st)"
  shows "j \<le> length r \<Longrightarrow> row_at (methods A) (Some i) = Some r \<Longrightarrow>
     iterate_methods (\<lambda>u. A) cb i t j st
       = (Inr False, fold f (map (Pair t) (filter truthy (rev (take j r)))) st)"
proof (induction j arbitrary: st)
  case 0
  then show ?case by simp
next
  case (Suc j)
  then have lt: "j < length r" by simp
  have tk: "take (Suc j) r = take j r @ [r ! j]"
    using lt by (simp add: take_Suc_conv_app_nth)
  show ?case
    using Suc lt by (simp add: tk nth_val_def cb)
qed

lemma iterate_targets_pure:
  assumes cb: "\<And>p st. cb p st = (Inr False, f p st)"
  shows "(\<And>k. i \<le> k \<Longrightarrow> k < i + n \<Longrightarrow> row_at (methods A) (Some k) \<noteq> None) \<Longrightarrow>
     iterate_targets (\<lambda>u. A) cb i n st
       = (Inr False, fold f (concat (map (row_pairs A) [i..<i + n])) st)"
proof (induction n arbitrary: i st)
  case 0
  then show ?case by simp
next
  case (Suc n)
  from Suc.prems [of i] obtain r where r: "row_at (methods A) (Some i) = Some r"
    by auto
  have ih: "iterate_targets (\<lambda>u. A) cb (Suc i) n st'
       = (Inr False, fold f (concat (map (row_pairs A) [Suc i..<Suc i + n])) st')" for st'
    by (rule Suc.IH) (use Suc.prems in auto)
  have up: "[i..<i + Suc n] = i # [Suc i..<Suc i + n]"
    by (simp add: upt_rec)
  have rp: "row_pairs A i = map (Pair (nth_val (targets A) i)) (filter truthy (rev r))"
    using r by (simp add: row_pairs_def row_list_def)
  have step: "iterate_targets (\<lambda>u. A) cb i (Suc n) st
       = iterate_targets (\<lambda>u. A) cb (Suc i) n (fold f (row_pairs A i) st)"
    using iterate_methods_pure [of cb f "length r" r A i, OF cb] r by (simp add: rp)
  have cc: "concat (map (row_pairs A) [i..<i + Suc n])
       = row_pairs A i @ concat (map (row_pairs A) [Suc i..<Suc i + n])"
    by (simp only: up list.map concat.simps)
  show ?case
    by (simp only: step ih cc fold_append comp_def)
qed

lemma iterate_targets_hole:
  assumes cb: "\<And>p st. cb p st = (Inr False, f p st)"
  shows "i \<le> k \<Longrightarrow> k < i + n \<Longrightarrow> row_at (methods A) (Some k) = None \<Longrightarrow>
     fst (iterate_targets (\<lambda>u. A) cb i n st) = Inl TypeError"
proof (induction n arbitrary: i st)
  case 0
  then show ?case by simp
next
  case (Suc n)
  show ?case
  proof (cases "row_at (methods A) (Some i)")
    case None
    then show ?thesis by simp
  next
    case (Some r)
    then have "k \<noteq> i" using Suc.prems by auto
    then have "Suc i \<le> k" "k < Suc i + n" using Suc.prems by auto
    then have "fst (iterate_targets (\<lambda>u. A) cb (Suc i) n st') = Inl TypeError" for st'
      using Suc.IH Suc.prems(3) by blast
    then show ?thesis
      using iterate_methods_pure [of cb f "length r" r A i, OF cb] Some
      by simp
  qed
qed

lemma iterateSet_pure:
  assumes cb: "\<And>p st. cb p st = (Inr False, f p st)"
  shows "rows_ok A \<Longrightarrow> iterateSet (\<lambda>u. A) cb st = (Inr False, fold f (pairs_of A) st)"
  using iterate_targets_pure [of cb f 0 "length (targets A)" A st, OF cb]
  by (simp add: iterateSet_def pairs_of_def rows_ok_def list_all_iff)

lemma iterateSet_hole:
  assumes cb: "\<And>p st. cb p st = (Inr False, f p st)"
  shows "\<not> rows_ok A \<Longrightarrow> fst (iterateSet (\<lambda>u. A) cb st) = Inl TypeError"
  using iterate_targets_hole [of cb f 0 _ "length (targets A)" A st, OF cb]
  by (auto simp add: iterateSet_def rows_ok_def list_all_iff)

lemma fold_snoc: "fold (\<lambda>p ret. ret @ [p]) ps acc = acc @ ps"
  by (induction ps arbitrary: acc) auto

lemma listenersFor_eq:
  "targetSetFor s obj e = Some a \<Longrightarrow>
     listenersFor s obj e = (if rows_ok (acts s ! a) then Inr (pairs_of (acts s ! a)) else Inl TypeError)"
proof (cases "rows_ok (acts s ! a)")
  case True
  assume "targetSetFor s obj e = Some a"
  then show ?thesis
    using True iterateSet_pure [of "\<lambda>action ret. (Inr False, ret @ [action])" "\<lambda>p ret. ret @ [p]" "acts s ! a" "[]"]
    by (simp add: listenersFor_def fold_snoc)
next
  case False
  assume "targetSetFor s obj e = Some a"
  then show ?thesis
    using False iterateSet_hole [of "\<lambda>action ret. (Inr False, ret @ [action])" "\<lambda>p ret. ret @ [p]" "acts s ! a" "[]"]
    by (auto simp add: listenersFor_def split: prod.splits sum.splits)
qed

lemma pairs_of_truthy: "p \<in> set (pairs_of A) \<Longrightarrow> truthy (snd p)"
  by (auto simp add: pairs_of_def row_pairs_def)

lemma listenersFor_SomeD:
  assumes "listenersFor s obj e = Inr ps" "ps \<noteq> []"
  shows "\<exists>a. targetSetFor s obj e = Some a \<and> rows_ok (acts s ! a) \<and> ps = pairs_of (acts s ! a)"
proof (cases "targetSetFor s obj e")
  case None
  then show ?thesis using assms by (simp add: listenersFor_def)
next
  case (Some a)
  then show ?thesis using assms listenersFor_eq [OF Some] by (auto split: if_splits)
qed

subsection \<open>The difference as a fold\<close>

lemma targetSetDiff_fold:
  assumes "targetSetFor s obj e = Some a" "rows_ok (acts s ! a)"
  shows "targetSetDiff s obj e acc =
     (Inr (snd (fold diff_step (pairs_of (acts s ! a)) (acc, \<lparr>source = None, targets = [], methods = []\<rparr>))),
      fst (fold diff_step (pairs_of (acts s ! a)) (acc, \<lparr>source = None, targets = [], methods = []\<rparr>)))"
proof -
  let ?cb = "\<lambda>action st.
     case row_at (methods (fst st)) (indexOf (targets (fst st)) (fst action)) of
       Some targetMethods \<Rightarrow>
         if indexOf targetMethods (snd action) \<noteq> None then (Inr False, st)
         else (Inr False, (addAction (fst st) action, addAction (snd st) action))
     | None \<Rightarrow> (Inr False, (addAction (fst st) action, addAction (snd st) action))"
  have cb: "\<And>p st. ?cb p st = (Inr False, diff_step p st)"
    by (simp add: diff_step_def split: option.splits)
  show ?thesis
    using assms iterateSet_pure [of ?cb diff_step "acts s ! a", OF cb]
    by (simp add: targetSetDiff_def Let_def)
qed

lemma two_elems:
  assumes "distinct ps" "set ps = {x, y}" "x \<noteq> y"
  shows "ps = [x, y] \<or> ps = [y, x]"
proof -
  have "length ps = 2" using assms distinct_card [of ps] by simp
  then obtain u v where "ps = [u, v]"
    by (cases ps; cases "tl ps") auto
  then show ?thesis using assms by auto
qed

lemma pairs_of_one:
  "targets A = [a] \<Longrightarrow> methods A = Some r1 # rest \<Longrightarrow>
     pairs_of A = map (Pair a) (filter truthy (rev r1))"
  by (simp add: pairs_of_def row_pairs_def row_list_def nth_val_def row_at_def)

lemma pairs_of_two:
  "targets A = [a, b] \<Longrightarrow> methods A = Some r1 # Some r2 # rest \<Longrightarrow>
     pairs_of A = map (Pair a) (filter truthy (rev r1)) @ map (Pair b) (filter truthy (rev r2))"
  by (simp add: pairs_of_def row_pairs_def row_list_def nth_val_def row_at_def upt_rec)

subsection \<open>A write is a change of the object \<^verbatim>\<open>actionsFor\<close> returns\<close>



subsection \<open>Directories\<close>

lemma map_of_set_prop: "map_of (set_prop k v ps) = (map_of ps)(k \<mapsto> v)"
  by (induction ps) (auto simp add: fun_eq_iff)

lemma set_set_prop: "set (set_prop k v ps) \<subseteq> insert (k, v) (set ps)"
  by (induction ps) auto

lemma set_event_simps [simp]:
  "acts (set_event s d k v) = acts s"
  "listeners (set_event s d k v) = listeners s"
  "length (dirs (set_event s d k v)) = length (dirs s)"
  by (simp_all add: set_event_def)

lemma own_entry_set_event:
  "listeners s obj = Some d \<Longrightarrow> d < length (dirs s) \<Longrightarrow> own_entry (set_event s d e v) obj e v"
  by (simp add: own_entry_def set_event_def map_of_set_prop)

lemma store_ok_set_event:
  assumes "store_ok s" "d < length (dirs s)" "\<And>a. v = Ref a \<Longrightarrow> a < length (acts s)"
  shows "store_ok (set_event s d k v)"
proof -
  have "\<And>D k' a. D \<in> set (dirs (set_event s d k v)) \<Longrightarrow> (k', Ref a) \<in> set (events D) \<Longrightarrow> a < length (acts s)"
  proof -
    fix D k' a
    assume D: "D \<in> set (dirs (set_event s d k v))" and m: "(k', Ref a) \<in> set (events D)"
    from D have "D \<in> set (dirs s) \<or> D = (dirs s ! d)\<lparr>events := set_prop k v (events (dirs s ! d))\<rparr>"
      using set_update_subset_insert [of "dirs s" d] by (auto simp add: set_event_def)
    then show "a < length (acts s)"
    proof
      assume "D \<in> set (dirs s)"
      then show ?thesis using assms(1) m by (auto simp add: store_ok_def)
    next
      assume "D = (dirs s ! d)\<lparr>events := set_prop k v (events (dirs s ! d))\<rparr>"
      then have "(k', Ref a) = (k, v) \<or> (k', Ref a) \<in> set (events (dirs s ! d))"
        using m set_set_prop [of k v "events (dirs s ! d)"] by auto
      moreover have "dirs s ! d \<in> set (dirs s)" using assms(2) by simp
      ultimately show ?thesis
        using assms(1,3) by (auto simp add: store_ok_def)
    qed
  qed
  then show ?thesis
    using assms(1) by (auto simp add: store_ok_def)
qed

lemma dir_get_own:
  "d < length ds \<Longrightarrow> map_of (events (ds ! d)) k = Some v \<Longrightarrow> dir_get ds d k = Some v"
  by (subst dir_get.simps) simp

lemma dir_get_in:
  "dir_get ds d k = Some (Ref a) \<Longrightarrow> \<exists>D\<in>set ds. (k, Ref a) \<in> set (events D)"
proof (induction ds d k rule: dir_get.induct)
  case (1 ds d k)
  show ?case
  proof (cases "map_of (events (ds ! d)) k")
    case None
    then show ?thesis
      using "1.prems" "1.IH"
      by (subst (asm) dir_get.simps) (auto simp add: proto_get_def split: if_splits option.splits)
  next
    case (Some w)
    then show ?thesis
      using "1.prems"
      by (subst (asm) dir_get.simps) (auto split: if_splits dest: map_of_SomeD)
  qed
qed

lemma targetSetFor_own: "own_entry s obj e (Ref a) \<Longrightarrow> targetSetFor s obj e = Some a"
  by (auto simp add: own_entry_def targetSetFor_def dir_get_own split: option.splits)

lemma targetSetFor_lt: "store_ok s \<Longrightarrow> targetSetFor s obj e = Some a \<Longrightarrow> a < length (acts s)"
  by (auto simp add: targetSetFor_def store_ok_def split: option.splits slot.splits dest!: dir_get_in)

lemma set_enum_order [simp]: "set (enum_order ks) = set ks"
  by (auto simp add: enum_order_def)

lemma sees_builtin_Some: "targetSetFor s obj e = Some a \<Longrightarrow> \<not> sees_builtin s obj e"
  by (auto simp add: targetSetFor_def sees_builtin_def split: option.splits slot.splits)




subsection \<open>Stores that are well built\<close>

lemma store_ok_alloc_dir:
  assumes "store_ok s" "\<And>k a. (k, Ref a) \<in> set (events D) \<Longrightarrow> a < length (acts s)"
  shows "store_ok (s\<lparr>dirs := dirs s @ [D], listeners := (listeners s)(obj \<mapsto> length (dirs s))\<rparr>)"
  using assms by (auto simp add: store_ok_def less_Suc_eq)

lemma store_ok_alloc_act:
  assumes "store_ok s" "length (targets A) \<le> length (methods A)" "None \<notin> set (methods A)"
  shows "store_ok (s\<lparr>acts := acts s @ [A]\<rparr>)"
  using assms by (auto simp add: store_ok_def less_Suc_eq)


lemma store_ok_act: "store_ok s \<Longrightarrow> a < length (acts s) \<Longrightarrow>
   length (targets (acts s ! a)) \<le> length (methods (acts s ! a)) \<and> None \<notin> set (methods (acts s ! a))"
  by (simp add: store_ok_def)

subsection \<open>The four cases of \<^verbatim>\<open>actionsFor\<close>\<close>

lemma actionsFor_fresh:
  assumes "listeners s obj = None" "e \<notin> set object_prototype"
  shows "actionsFor s obj e =
     (Inr (length (acts s)),
      set_event (s\<lparr>dirs := dirs s @ [\<lparr>proto = None, dsource = None, events = []\<rparr>],
                   listeners := (listeners s)(obj \<mapsto> length (dirs s)),
                   acts := acts s @ [\<lparr>source = Some obj, targets = [], methods = []\<rparr>]\<rparr>)
        (length (dirs s)) e (Ref (length (acts s))))"
proof -
  have dg: "dir_get (dirs s @ [\<lparr>proto = None, dsource = None, events = []\<rparr>]) (length (dirs s)) e = None"
    using assms(2) by (subst dir_get.simps) (simp add: proto_get_def)
  show ?thesis
    using assms(1) dg by (simp add: actionsFor_def Let_def)
qed

lemma actionsFor_new:
  assumes "listeners s obj = Some d" "\<And>a. dir_get (dirs s) d e \<noteq> Some (Ref a)"
    "dir_get (dirs s) d e \<noteq> Some Builtin"
  shows "actionsFor s obj e =
     (Inr (length (acts s)),
      set_event (s\<lparr>acts := acts s @ [\<lparr>source = Some obj, targets = [], methods = []\<rparr>]\<rparr>)
        d e (Ref (length (acts s))))"
  using assms by (auto simp add: actionsFor_def Let_def split: option.splits slot.splits)

lemma actionsFor_inplace:
  assumes "listeners s obj = Some d" "dir_get (dirs s) d e = Some (Ref a)"
    "source (acts s ! a) = Some obj"
  shows "actionsFor s obj e = (Inr a, set_event s d e (Ref a))"
  using assms by (simp add: actionsFor_def Let_def)

lemma actionsFor_fork:
  assumes "listeners s obj = Some d" "dir_get (dirs s) d e = Some (Ref a)"
    "source (acts s ! a) \<noteq> Some obj" "None \<notin> set (methods (acts s ! a))"
  shows "actionsFor s obj e =
     (Inr (length (acts s)),
      set_event ((set_event s d e (Ref a))
                   \<lparr>dirs := dirs (set_event s d e (Ref a)) @ [\<lparr>proto = Some d, dsource = Some obj, events = []\<rparr>],
                    listeners := (listeners s)(obj \<mapsto> length (dirs s)),
                    acts := acts s @ [\<lparr>source = None, targets = targets (acts s ! a),
                                        methods = methods (acts s ! a)\<rparr>]\<rparr>)
        (length (dirs s)) e (Ref (length (acts s))))"
  using assms by (simp add: actionsFor_def Let_def)

lemma actionsFor_ok:
  assumes ok: "store_ok s" and nb: "\<not> sees_builtin s obj e"
  shows "\<exists>a' s'. actionsFor s obj e = (Inr a', s') \<and> store_ok s' \<and>
           (\<exists>extra. acts s' = acts s @ extra) \<and> a' < length (acts s') \<and>
           own_entry s' obj e (Ref a') \<and>
           targets (acts s' ! a') = (case targetSetFor s obj e of None \<Rightarrow> [] | Some a \<Rightarrow> targets (acts s ! a)) \<and>
           methods (acts s' ! a') = (case targetSetFor s obj e of None \<Rightarrow> [] | Some a \<Rightarrow> methods (acts s ! a)) \<and>
           a' = (case targetSetFor s obj e of
                   None \<Rightarrow> length (acts s)
                 | Some a \<Rightarrow> if source (acts s ! a) = Some obj then a else length (acts s)) \<and>
           source (acts s' ! a') = (case targetSetFor s obj e of
                   None \<Rightarrow> Some obj
                 | Some a \<Rightarrow> if source (acts s ! a) = Some obj then Some obj else None)"
proof (cases "listeners s obj")
  case None
  let ?N = "\<lparr>source = Some obj, targets = [], methods = []\<rparr>"
  let ?S = "s\<lparr>dirs := dirs s @ [\<lparr>proto = None, dsource = None, events = []\<rparr>],
               listeners := (listeners s)(obj \<mapsto> length (dirs s)),
               acts := acts s @ [?N]\<rparr>"
  have tsf: "targetSetFor s obj e = None" using None by (simp add: targetSetFor_def)
  have "store_ok (s\<lparr>dirs := dirs s @ [\<lparr>proto = None, dsource = None, events = []\<rparr>],
               listeners := (listeners s)(obj \<mapsto> length (dirs s))\<rparr>)"
    by (rule store_ok_alloc_dir [OF ok]) simp
  from store_ok_alloc_act [OF this, of ?N] have okS: "store_ok ?S" by simp
  have ok': "store_ok (set_event ?S (length (dirs s)) e (Ref (length (acts s))))"
    by (rule store_ok_set_event [OF okS]) simp_all
  have own: "own_entry (set_event ?S (length (dirs s)) e (Ref (length (acts s)))) obj e (Ref (length (acts s)))"
    by (rule own_entry_set_event) simp_all
  have np: "e \<notin> set object_prototype"
    using nb None by (simp add: sees_builtin_def proto_get_def split: if_splits)
  show ?thesis
    unfolding actionsFor_fresh [OF None np] tsf
    using ok' own by simp
next
  case (Some d)
  then have d: "d < length (dirs s)" using ok by (simp add: store_ok_def)
  show ?thesis
  proof (cases "\<exists>a. dir_get (dirs s) d e = Some (Ref a)")
    case False
    let ?N = "\<lparr>source = Some obj, targets = [], methods = []\<rparr>"
    let ?S = "s\<lparr>acts := acts s @ [?N]\<rparr>"
    have tsf: "targetSetFor s obj e = None"
      using Some False by (auto simp add: targetSetFor_def split: option.splits slot.splits)
    from store_ok_alloc_act [OF ok, of ?N] have okS: "store_ok ?S" by simp
    have ok': "store_ok (set_event ?S d e (Ref (length (acts s))))"
      by (rule store_ok_set_event [OF okS]) (simp_all add: d)
    have own: "own_entry (set_event ?S d e (Ref (length (acts s)))) obj e (Ref (length (acts s)))"
      by (rule own_entry_set_event) (simp_all add: Some d)
    have eq: "actionsFor s obj e = (Inr (length (acts s)), set_event ?S d e (Ref (length (acts s))))"
      by (rule actionsFor_new [OF Some]) (use False nb Some in \<open>auto simp add: sees_builtin_def\<close>)
    show ?thesis
      unfolding eq tsf using ok' own by simp
  next
    case True
    then obtain a where a: "dir_get (dirs s) d e = Some (Ref a)" by blast
    have tsf: "targetSetFor s obj e = Some a"
      using Some a by (simp add: targetSetFor_def)
    have alt: "a < length (acts s)" using targetSetFor_lt [OF ok tsf] .
    have ok1: "store_ok (set_event s d e (Ref a))"
      by (rule store_ok_set_event [OF ok d]) (simp add: alt)
    show ?thesis
    proof (cases "source (acts s ! a) = Some obj")
      case True
      have own: "own_entry (set_event s d e (Ref a)) obj e (Ref a)"
        by (rule own_entry_set_event [OF Some d])
      show ?thesis
        unfolding actionsFor_inplace [OF Some a True] tsf
        using ok1 own alt True by simp
    next
      case False
      let ?A = "acts s ! a"
      let ?C = "\<lparr>source = None, targets = targets ?A, methods = methods ?A\<rparr>"
      let ?S1 = "set_event s d e (Ref a)"
      let ?S = "?S1\<lparr>dirs := dirs ?S1 @ [\<lparr>proto = Some d, dsource = Some obj, events = []\<rparr>],
                    listeners := (listeners s)(obj \<mapsto> length (dirs s)),
                    acts := acts s @ [?C]\<rparr>"
      have nh: "length (targets ?A) \<le> length (methods ?A)" "None \<notin> set (methods ?A)"
        using store_ok_act [OF ok alt] by simp_all
      have "store_ok (?S1\<lparr>dirs := dirs ?S1 @ [\<lparr>proto = Some d, dsource = Some obj, events = []\<rparr>],
                    listeners := (listeners ?S1)(obj \<mapsto> length (dirs ?S1))\<rparr>)"
        by (rule store_ok_alloc_dir [OF ok1]) simp
      from store_ok_alloc_act [OF this, of ?C] nh have okS: "store_ok ?S" by simp
      have ok': "store_ok (set_event ?S (length (dirs s)) e (Ref (length (acts s))))"
        by (rule store_ok_set_event [OF okS]) simp_all
      have own: "own_entry (set_event ?S (length (dirs s)) e (Ref (length (acts s)))) obj e (Ref (length (acts s)))"
        by (rule own_entry_set_event) simp_all
      show ?thesis
        unfolding actionsFor_fork [OF Some a False nh(2)] tsf
        using ok' own False by simp
    qed
  qed
qed

subsection \<open>The effect of a write\<close>

lemma indexOf_Some: "indexOf xs v = Some i \<Longrightarrow> i < length xs \<and> xs ! i = v \<and> v \<notin> set (take i xs)"
proof (induction xs arbitrary: i)
  case Nil
  then show ?case by simp
next
  case (Cons x xs)
  then show ?case by (cases i) (auto split: if_splits)
qed

lemma indexOf_None: "indexOf xs v = None \<longleftrightarrow> v \<notin> set xs"
  by (induction xs) auto







lemma source_add_to [simp]: "source (add_to A t m) = source A"
  by (simp add: add_to_def Let_def split: option.splits)

lemma source_remove_from [simp]: "source (remove_from A t m) = source A"
  by (simp add: remove_from_def Let_def split: option.splits)

lemma own_entry_acts [simp]: "own_entry (s\<lparr>acts := X\<rparr>) obj e v = own_entry s obj e v"
  by (simp add: own_entry_def split: option.splits)





subsection \<open>Rows and removals with a method\<close>

lemma row_list_update:
  "row_list (A\<lparr>methods := (methods A)[k := Some r]\<rparr>) i =
     (if i = k \<and> k < length (methods A) then r else row_list A i)"
  by (simp add: row_list_def row_at_def)




subsection \<open>The callback of \<^verbatim>\<open>sendEvent\<close>\<close>



lemma view_targets_SomeD:
  "targets (view s obj e) \<noteq> [] \<Longrightarrow> \<exists>a. targetSetFor s obj e = Some a"
  by (cases "targetSetFor s obj e") (simp_all add: view_def)

subsection \<open>What the queries return\<close>





lemma row_pairs_source [simp]: "row_pairs (A\<lparr>source := x\<rparr>) = row_pairs A"
  by (rule ext) (simp add: row_pairs_def row_list_def)

lemma pairs_of_source [simp]: "pairs_of (A\<lparr>source := x\<rparr>) = pairs_of A"
  by (simp add: pairs_of_def)








subsection \<open>Adding and removing one pair\<close>

lemma pairs_of_mem:
  assumes "i < length (targets A)" "row_at (methods A) (Some i) = Some r" "x \<in> set r" "truthy x"
  shows "(targets A ! i, x) \<in> set (pairs_of A)"
  using assms by (auto simp add: pairs_of_def row_pairs_def row_list_def nth_val_def intro!: bexI [of _ i])



subsection \<open>Removing the methods of a whole row\<close>

lemma rm_apply [simp]: "rm (t, m) A = remove_from A t m"
  by (simp add: rm_def)




lemma indexOf_distinct_nth: "distinct xs \<Longrightarrow> i < length xs \<Longrightarrow> indexOf xs (xs ! i) = Some i"
proof (induction xs arbitrary: i)
  case Nil
  then show ?case by simp
next
  case (Cons x xs)
  then show ?case by (cases i) auto
qed







subsection \<open>Removing every listener, on copies\<close>

lemma wf_row:
  assumes "wf_actions A" "k < length (targets A)"
  shows "\<exists>r. row_at (methods A) (Some k) = Some r \<and> r \<noteq> [] \<and> distinct r \<and> (\<forall>m\<in>set r. truthy m) \<and>
             row_pairs A k = map (Pair (targets A ! k)) (rev r)"
proof -
  have k: "k < length (methods A)" using assms by (simp add: wf_actions_def)
  then have "methods A ! k \<in> set (methods A)" by simp
  then have "case methods A ! k of None \<Rightarrow> False
             | Some r \<Rightarrow> r \<noteq> [] \<and> distinct r \<and> list_all truthy r"
    using assms(1) unfolding wf_actions_def list_all_iff by blast
  then obtain r where r: "methods A ! k = Some r" "r \<noteq> []" "distinct r" "list_all truthy r"
    by (cases "methods A ! k") auto
  have "filter truthy (rev r) = rev r" using r(4) by (simp add: list_all_iff)
  then show ?thesis
    using r k assms(2) by (simp add: row_at_def row_pairs_def row_list_def nth_val_def list_all_iff)
qed



subsection \<open>Removing every listener, in the store\<close>











lemma wf_actions_source [simp]: "wf_actions (A\<lparr>source := x\<rparr>) = wf_actions A"
  by (simp add: wf_actions_def)

subsection \<open>Suspension of one event\<close>

text \<open>
  What \<^verbatim>\<open>suspendListener\<close> does for a pair that is registered, when the body leaves the
  store as it is: the body runs on a store where the pair is not reported, its result
  (a value or an exception) is the result of the call, and the pair is reported again
  afterwards. The method is pushed at the end of its row.
\<close>

lemma pairs_of_memD:
  assumes "(t, m) \<in> set (pairs_of A)"
  shows "\<exists>i<length (targets A). targets A ! i = t \<and> m \<in> set (row_list A i) \<and> truthy m"
  using assms by (auto simp add: pairs_of_def row_pairs_def nth_val_def)

lemma pairs_of_row_update:
  assumes "distinct (targets A)" "i < length (targets A)" "i < length (methods A)"
  shows "(targets A ! i, m) \<in> set (pairs_of (A\<lparr>methods := (methods A)[i := Some r]\<rparr>))
           \<longleftrightarrow> m \<in> set r \<and> truthy m"
proof
  assume "(targets A ! i, m) \<in> set (pairs_of (A\<lparr>methods := (methods A)[i := Some r]\<rparr>))"
  from pairs_of_memD [OF this] obtain k where
    k: "k < length (targets A)" "targets A ! k = targets A ! i"
       "m \<in> set (row_list (A\<lparr>methods := (methods A)[i := Some r]\<rparr>) k)" "truthy m"
    by auto
  have "k = i" using k(1,2) assms(1,2) by (simp add: nth_eq_iff_index_eq)
  then show "m \<in> set r \<and> truthy m" using k(3,4) assms(3) by (simp add: row_list_update)
next
  assume "m \<in> set r \<and> truthy m"
  then show "(targets A ! i, m) \<in> set (pairs_of (A\<lparr>methods := (methods A)[i := Some r]\<rparr>))"
    using pairs_of_mem [of i "A\<lparr>methods := (methods A)[i := Some r]\<rparr>" r m] assms(2,3)
    by (simp add: row_at_def)
qed

lemma set_splice1_distinct:
  assumes "distinct r" "indexOf r m = Some j"
  shows "m \<notin> set (splice1 (Some j) r)"
proof -
  from indexOf_Some [OF assms(2)] have j: "j < length r" "r ! j = m" by simp_all
  have "r = take j r @ m # drop (Suc j) r" using j id_take_nth_drop [of j r] by simp
  then have "distinct (take j r @ m # drop (Suc j) r)" using assms(1) by simp
  then show ?thesis by (simp add: splice1_def)
qed

lemma suspendListener_restores:
  assumes ok: "store_ok s" and m: "truthy m" and wf: "wf_actions (view s obj e)"
    and reg: "(t, m) \<in> set (pairs_of (view s obj e))"
    and frame: "\<And>s'. snd (callback t s') = s'"
  shows "\<exists>s1 s'. suspendListener s obj e t m callback = (fst (callback t s1), s') \<and>
           (t, m) \<notin> set (pairs_of (view s1 obj e)) \<and>
           (t, m) \<in> set (pairs_of (view s' obj e))"
proof -
  let ?V = "view s obj e"
  have sh: "shuffle t m = (t, m)" using m by (simp add: shuffle_def)
  from pairs_of_memD [OF reg] obtain i where
    i: "i < length (targets ?V)" "targets ?V ! i = t" "m \<in> set (row_list ?V i)"
    by auto
  have d: "distinct (targets ?V)" and len: "length (targets ?V) = length (methods ?V)"
    using wf by (simp_all add: wf_actions_def)
  from wf_row [OF wf i(1)] obtain r where
    r: "row_at (methods ?V) (Some i) = Some r" "distinct r"
    by blast
  have mr: "m \<in> set r" using i(3) r(1) by (simp add: row_list_def)
  then obtain j where j: "indexOf r m = Some j"
    by (cases "indexOf r m") (auto simp add: indexOf_None)
  have ix: "indexOf (targets ?V) t = Some i"
    using indexOf_distinct_nth [OF d i(1)] i(2) by simp
  have "targets ?V \<noteq> []" using i(1) by auto
  from view_targets_SomeD [OF this] obtain a0 where "targetSetFor s obj e = Some a0"
    by auto
  then have nb: "\<not> sees_builtin s obj e" by (rule sees_builtin_Some)
  from actionsFor_ok [OF ok nb] obtain a s0 where
    a: "actionsFor s obj e = (Inr a, s0)" "store_ok s0" "a < length (acts s0)"
       "own_entry s0 obj e (Ref a)"
       "targets (acts s0 ! a) = (case targetSetFor s obj e of None \<Rightarrow> [] | Some a \<Rightarrow> targets (acts s ! a))"
       "methods (acts s0 ! a) = (case targetSetFor s obj e of None \<Rightarrow> [] | Some a \<Rightarrow> methods (acts s ! a))"
    by blast
  let ?A = "acts s0 ! a"
  have tm: "targets ?A = targets ?V" "methods ?A = methods ?V"
    using a(5,6) by (simp_all add: view_def split: option.splits)
  let ?r1 = "splice1 (Some j) r"
  let ?A1 = "?A\<lparr>methods := (methods ?A)[i := Some ?r1]\<rparr>"
  let ?s1 = "s0\<lparr>acts := (acts s0)[a := ?A1]\<rparr>"
  obtain res where res: "callback t ?s1 = (res, ?s1)"
    using frame [of ?s1] by (cases "callback t ?s1") auto
  let ?s2 = "push_row ?s1 a i m"
  have eq: "suspendListener s obj e t m callback = (res, ?s2)"
    using a(1) ix r(1) j res m tm by (simp add: suspendListener_def sh Let_def)
  have im: "i < length (methods ?A)" using i(1) len tm by simp
  have own1: "own_entry ?s1 obj e (Ref a)" using a(4) by simp
  have v1: "view ?s1 obj e = ?A1\<lparr>source := None\<rparr>"
    using targetSetFor_own [OF own1] a(3) by (simp add: view_def)
  have "(t, m) \<notin> set (pairs_of ?A1)"
    using pairs_of_row_update [of ?A i m ?r1] d i(1,2) im tm set_splice1_distinct [OF r(2) j]
    by simp
  then have absent: "(t, m) \<notin> set (pairs_of (view ?s1 obj e))"
    unfolding v1 by simp
  have A2: "acts ?s2 ! a = ?A\<lparr>methods := (methods ?A)[i := Some (?r1 @ [m])]\<rparr>"
    using a(3) im by (simp add: push_row_def Let_def row_at_def)
  have own2: "own_entry ?s2 obj e (Ref a)" using a(4) by (simp add: push_row_def Let_def)
  have v2: "view ?s2 obj e = (?A\<lparr>methods := (methods ?A)[i := Some (?r1 @ [m])]\<rparr>)\<lparr>source := None\<rparr>"
    using targetSetFor_own [OF own2] A2 by (simp add: view_def)
  have "(t, m) \<in> set (pairs_of (?A\<lparr>methods := (methods ?A)[i := Some (?r1 @ [m])]\<rparr>))"
    using pairs_of_row_update [of ?A i m "?r1 @ [m]"] d i(1,2) im tm m
    by simp
  then have present: "(t, m) \<in> set (pairs_of (view ?s2 obj e))"
    unfolding v2 by simp
  show ?thesis
    using eq res absent present by (intro exI [of _ ?s1] exI [of _ ?s2]) simp
qed

subsection \<open>Aligned action sets\<close>



lemma wf_aligned: "wf_actions A \<Longrightarrow> aligned A"
  unfolding wf_actions_def aligned_def list_all_iff by (auto split: option.splits)














subsection \<open>The pairs still to be visited\<close>
















subsection \<open>A removal of all listeners that leaves an object alone\<close>



lemma length_methods_remove_from [simp]:
  "length (methods (remove_from A t m)) = length (methods A)"
  by (simp add: remove_from_def Let_def split: option.splits)


subsection \<open>The calls of a listener that is safe\<close>







subsection \<open>The dispatch under observation\<close>









section \<open>C1: removing a pair that is not registered\<close>

text \<open>
  C1. Removing a (target, method) pair that is not registered should leave what
  \<^verbatim>\<open>listenersFor\<close> and \<^verbatim>\<open>hasListeners\<close> report unchanged, also when the target has no row.
  On the code it does not: \<^verbatim>\<open>indexOf\<close> returns \<^verbatim>\<open>-1\<close> for the unknown target, the
  array standing in for its row is empty, and \<^verbatim>\<open>targets.splice(-1, 1)\<close> removes the last
  target of the set. Owner 1 has the single listener (object 7, function 1) on
  \<^verbatim>\<open>"e"\<close>; removing the unregistered pair (object 8, function 2) raises no error and
  leaves owner 1 without listeners.
\<close>

theorem removeListener_unknown_target_drops_last_row:
  "(let s0 = snd (addListener empty_store 1 ''e'' (Obj 7) (Fun 1));
        r = removeListener s0 1 ''e'' (Obj 8) (Fun 2)
    in listenersFor s0 1 ''e'' = Inr [(Obj 7, Fun 1)] \<and>
       fst (hasListeners s0 1 ''e'') = Inr True \<and>
       fst r = Inr () \<and>
       listenersFor (snd r) 1 ''e'' = Inr [] \<and>
       fst (hasListeners (snd r) 1 ''e'') = Inr False)"
  by code_simp

section \<open>C2: the alignment of targets and methods\<close>

text \<open>
  C2. Every operation should keep \<^verbatim>\<open>targets\<close> and \<^verbatim>\<open>methods\<close> aligned index for index.
  \<^verbatim>\<open>_removeListener\<close> does not: when the last method of a row is removed it splices
  \<^verbatim>\<open>targets\<close> and leaves the emptied array in \<^verbatim>\<open>methods\<close>. With (object 7, function 1)
  and (object 8, function 2) registered, removing the first pair leaves one target and
  two rows: object 8 now stands against the empty row and its listener is no longer
  reported.
\<close>

theorem removeListener_leaves_methods_row:
  "(let s0 = snd (addListener (snd (addListener empty_store 1 ''e'' (Obj 7) (Fun 1)))
                    1 ''e'' (Obj 8) (Fun 2));
        s1 = snd (removeListener s0 1 ''e'' (Obj 7) (Fun 1))
    in listenersFor s0 1 ''e'' = Inr [(Obj 7, Fun 1), (Obj 8, Fun 2)] \<and>
       map_option (\<lambda>a. (targets (acts s1 ! a), methods (acts s1 ! a))) (targetSetFor s1 1 ''e'')
         = Some ([Obj 8], [Some [], Some [Fun 2]]) \<and>
       listenersFor s1 1 ''e'' = Inr [])"
  by code_simp

section \<open>C3: writing through a shared directory\<close>

text \<open>
  C3. When owner 2 shares the directory of owner 1 and adds a listener, owner 1 should
  see no change. \<^verbatim>\<open>actionsFor\<close> forks only when the directory already has an entry for
  the event: otherwise it stores the fresh entry in the shared directory first and then
  finds its own marker on it. Owner 1 has a listener on \<^verbatim>\<open>"y"\<close>; owner 2 refers to the
  same directory (which carries no marker) and adds function 5 on \<^verbatim>\<open>"x"\<close>; afterwards
  \<^verbatim>\<open>hasListeners\<close> of owner 1 on \<^verbatim>\<open>"x"\<close> is true and \<^verbatim>\<open>listenersFor\<close> reports the pair.
\<close>

theorem addListener_writes_shared_directory:
  "(let s0 = snd (addListener empty_store 1 ''y'' Null (Fun 9));
        s1 = s0\<lparr>listeners := (listeners s0)(2 := listeners s0 1)\<rparr>;
        s2 = snd (addListener s1 2 ''x'' Null (Fun 5))
    in listeners s1 2 = listeners s1 1 \<and> listeners s1 1 = Some 0 \<and>
       dir_source (dirs s1) 0 = None \<and>
       fst (hasListeners s1 1 ''x'') = Inr False \<and>
       listenersFor s1 1 ''x'' = Inr [] \<and>
       fst (hasListeners s2 1 ''x'') = Inr True \<and>
       listenersFor s2 1 ''x'' = Inr [(Null, Fun 5)])"
  by code_simp

section \<open>C4: suspension restores the pair\<close>

text \<open>
  C4. A suspended pair should be registered again when \<^verbatim>\<open>suspend\<close> returns.
  \<^verbatim>\<open>suspendListeners\<close> pairs \<^verbatim>\<open>removedMethods[i]\<close> with \<^verbatim>\<open>targetMethodArrays[i]\<close>, but
  the first array grows only for the events that had the pair and the second for every
  event. Owner 1 has (object 7, function 2) on \<^verbatim>\<open>"a"\<close> and (object 7, function 1) on
  \<^verbatim>\<open>"b"\<close>; suspending (object 7, function 1) over both events, with a body that returns
  normally, puts function 1 back on \<^verbatim>\<open>"a"\<close> and leaves \<^verbatim>\<open>"b"\<close> without it.
\<close>

theorem suspendListeners_restores_on_wrong_event:
  "(let s0 = snd (addListener (snd (addListener empty_store 1 ''a'' (Obj 7) (Fun 2)))
                    1 ''b'' (Obj 7) (Fun 1));
        r = suspendListeners s0 1 [''a'', ''b''] (Obj 7) (Fun 1) (\<lambda>this s. (Inr Undefined, s))
    in listenersFor s0 1 ''a'' = Inr [(Obj 7, Fun 2)] \<and>
       listenersFor s0 1 ''b'' = Inr [(Obj 7, Fun 1)] \<and>
       fst r = Inr Undefined \<and>
       listenersFor (snd r) 1 ''a'' = Inr [(Obj 7, Fun 1), (Obj 7, Fun 2)] \<and>
       listenersFor (snd r) 1 ''b'' = Inr [])"
  by code_simp

section \<open>C5: mutation during a dispatch\<close>


text \<open>
  Two more removals go wrong during a dispatch when rows are still to come, both by the
  defects of
  \<^verbatim>\<open>_removeListener\<close> (C1, C2) and not by the design of the loop: one that empties a row,
  and one that names a target without a row. Either way \<^verbatim>\<open>targets\<close> loses an entry that
  \<^verbatim>\<open>methods\<close> keeps, and the rows still to come are called with the wrong target. Owner 1
  has \<open>(object 7, function 1)\<close> and \<open>(object 8, function 2)\<close> on \<^verbatim>\<open>"e"\<close>; function 1
  removes itself, or removes a pair of object 9: function 2 is called with the owner as
  \<^verbatim>\<open>this\<close>, not object 8. Neither call is safe.
\<close>

lemma sendEvent_row_emptied_example:
  "(let s = snd (addListener (snd (addListener empty_store 1 ''e'' (Obj 7) (Fun 1))) 1 ''e'' (Obj 8) (Fun 2));
        code1 = (\<lambda>f. if f = 1 then [RemoveListener 1 ''e'' (Obj 7) (Fun 1)] else []);
        code2 = (\<lambda>f. if f = 1 then [RemoveListener 1 ''e'' (Obj 9) (Fun 5)] else []);
        props = (\<lambda>this name. Undefined)
    in listenersFor s 1 ''e'' = Inr [(Obj 7, Fun 1), (Obj 8, Fun 2)] \<and>
       snd (snd (sendEvent code1 props s 1 ''e'' None)) = [(Obj 7, Fun 1), (Obj 1, Fun 2)] \<and>
       snd (snd (sendEvent code2 props s 1 ''e'' None)) = [(Obj 7, Fun 1), (Obj 1, Fun 2)] \<and>
       \<not> dispatch_safe code1 props s 1 ''e'' \<and> \<not> dispatch_safe code2 props s 1 ''e'')"
  by code_simp



section \<open>C6: removing without a method\<close>




section \<open>C7: adding and then removing a pair\<close>




section \<open>C8: a listener that removes itself\<close>

text \<open>
  C8. Listeners \<open>L1\<close>, \<open>L2\<close>, \<open>L3\<close> are registered in that order on \<^verbatim>\<open>"e"\<close>, the body of
  \<open>L2\<close> is \<^verbatim>\<open>removeListener(owner, "e", null, L2)\<close>, and firing the event should call each
  of the three once. It does not on an owner whose only listener on \<^verbatim>\<open>"e"\<close> was removed
  before: \<^verbatim>\<open>_removeListener\<close> took the target of the emptied row out of \<^verbatim>\<open>targets\<close> and
  left the row in \<^verbatim>\<open>methods\<close>, so that \<open>L1\<close> opens a second row, \<open>L2\<close> and \<open>L3\<close> go to the
  stale one, and the loop, which runs over \<^verbatim>\<open>targets\<close>, never reaches \<open>L1\<close>. Owner 1 has
  no listener on \<^verbatim>\<open>"e"\<close> after function 9 was added and removed; functions 1, 2, 3 are
  then registered (target \<^verbatim>\<open>null\<close>), function 2 removes itself: \<^verbatim>\<open>sendEvent\<close> calls
  functions 3 and 2 only. (On owner 2, which never had a listener, the same three
  registrations give one row and all three are called.)
\<close>

theorem sendEvent_self_removal_after_emptied_row:
  "(let s0 = snd (removeListener (snd (addListener empty_store 1 ''e'' Null (Fun 9))) 1 ''e'' Null (Fun 9));
        s = snd (addListener (snd (addListener (snd (addListener s0 1 ''e'' Null (Fun 1)))
                  1 ''e'' Null (Fun 2))) 1 ''e'' Null (Fun 3));
        r = sendEvent (\<lambda>f. if f = 2 then [RemoveListener 1 ''e'' Null (Fun 2)] else [])
              (\<lambda>this name. Undefined) s 1 ''e'' None
    in listenersFor s0 1 ''e'' = Inr [] \<and>
       fst (hasListeners s0 1 ''e'') = Inr False \<and>
       acts s = [\<lparr>source = Some 1, targets = [Null], methods = [Some [Fun 2, Fun 3], Some [Fun 1]]\<rparr>] \<and>
       fst r = Inr True \<and>
       snd (snd r) = [(Obj 1, Fun 3), (Obj 1, Fun 2)] \<and>
       snd (snd (sendEvent (\<lambda>f. if f = 2 then [RemoveListener 2 ''e'' Null (Fun 2)] else [])
                   (\<lambda>this name. Undefined)
                   (snd (addListener (snd (addListener (snd (addListener empty_store 2 ''e'' Null (Fun 1)))
                      2 ''e'' Null (Fun 2))) 2 ''e'' Null (Fun 3)))
                   2 ''e'' None))
         = [(Obj 2, Fun 3), (Obj 2, Fun 2), (Obj 2, Fun 1)])"
  by code_simp

section \<open>C9: the difference of two action sets\<close>

text \<open>
  C9. The source owner has exactly the two pairs \<open>(t1, m1)\<close> and \<open>(t2, m2)\<close> on the
  event (\<^verbatim>\<open>listenersFor\<close> returns them, in either order) and the accumulator holds the row
  \<open>(t1, [m1])\<close>. Then \<^verbatim>\<open>targetSetDiff\<close> returns the action set with the single row
  \<open>(t2, [m2])\<close>, the accumulator holds both pairs afterwards, and a second call with the
  same source and that accumulator returns the empty action set and leaves the
  accumulator as it is.
\<close>

theorem targetSetDiff_two_pairs:
  assumes src: "listenersFor s P e = Inr ps" "distinct ps" "set ps = {(t1, m1), (t2, m2)}"
    and ne: "(t1, m1) \<noteq> (t2, m2)"
    and acc: "targets acc = [t1]" "methods acc = [Some [m1]]"
  shows "\<exists>d acc'. targetSetDiff s P e acc = (Inr d, acc') \<and>
           targets d = [t2] \<and> methods d = [Some [m2]] \<and> pairs_of d = [(t2, m2)] \<and>
           set (pairs_of acc') = {(t1, m1), (t2, m2)} \<and>
           targetSetDiff s P e acc' = (Inr \<lparr>source = None, targets = [], methods = []\<rparr>, acc')"
proof -
  have "ps \<noteq> []" using src(3) by auto
  then obtain a where a: "targetSetFor s P e = Some a" "rows_ok (acts s ! a)" "ps = pairs_of (acts s ! a)"
    using listenersFor_SomeD [OF src(1)] by blast
  have tr: "truthy m1" "truthy m2"
    using pairs_of_truthy [of "(t1, m1)" "acts s ! a"] pairs_of_truthy [of "(t2, m2)" "acts s ! a"] a(3) src(3)
    by auto
  have cases: "ps = [(t1, m1), (t2, m2)] \<or> ps = [(t2, m2), (t1, m1)]"
    using two_elems [OF src(2) src(3) ne] .
  show ?thesis
    unfolding targetSetDiff_fold [OF a(1) a(2)] a(3) [symmetric]
    using cases ne tr acc
    by (cases "t1 = t2")
       (auto simp add: diff_step_def addAction_def row_at_def pairs_of_one pairs_of_two)
qed

theorem targetSetDiff_two_pairs_witness:
  "\<exists>d acc'.
      targetSetDiff
        (snd (addListener (snd (addListener empty_store 1 ''e'' (Obj 7) (Fun 1))) 1 ''e'' (Obj 8) (Fun 2)))
        1 ''e'' \<lparr>source = None, targets = [Obj 7], methods = [Some [Fun 1]]\<rparr> = (Inr d, acc') \<and>
      targets d = [Obj 8] \<and> methods d = [Some [Fun 2]] \<and> pairs_of d = [(Obj 8, Fun 2)] \<and>
      set (pairs_of acc') = {(Obj 7, Fun 1), (Obj 8, Fun 2)} \<and>
      targetSetDiff
        (snd (addListener (snd (addListener empty_store 1 ''e'' (Obj 7) (Fun 1))) 1 ''e'' (Obj 8) (Fun 2)))
        1 ''e'' acc' = (Inr \<lparr>source = None, targets = [], methods = []\<rparr>, acc')"
proof -
  have src: "listenersFor
      (snd (addListener (snd (addListener empty_store 1 ''e'' (Obj 7) (Fun 1))) 1 ''e'' (Obj 8) (Fun 2)))
      1 ''e'' = Inr [(Obj 7, Fun 1), (Obj 8, Fun 2)]"
    by code_simp
  show ?thesis
    by (rule targetSetDiff_two_pairs [OF src]) simp_all
qed

section \<open>C10: suspending a pair that is not registered\<close>

text \<open>
  C10. Suspending a pair whose target has no row should run the body and return its
  result. Both suspend functions read \<^verbatim>\<open>actions.methods[-1]\<close>, which is \<^verbatim>\<open>undefined\<close>,
  and call \<^verbatim>\<open>indexOf\<close> on it: a \<^verbatim>\<open>TypeError\<close>, whatever the body is, on an owner without
  listeners and on one whose listeners belong to another target.
\<close>

theorem suspend_without_row_is_TypeError:
  "fst (suspendListener empty_store 1 ''e'' (Obj 7) (Fun 1) callback) = Inl TypeError \<and>
   fst (suspendListeners empty_store 1 [''e''] (Obj 7) (Fun 1) callback) = Inl TypeError \<and>
   (let s0 = snd (addListener empty_store 1 ''e'' (Obj 8) (Fun 2))
    in listenersFor s0 1 ''e'' = Inr [(Obj 8, Fun 2)] \<and>
       fst (suspendListener s0 1 ''e'' (Obj 7) (Fun 1) callback) = Inl TypeError \<and>
       fst (suspendListeners s0 1 [''e''] (Obj 7) (Fun 1) callback) = Inl TypeError)"
  by code_simp

end
